theory Spec2Isabelle
  imports Complex_Main "HOL-Library.Char_ord" "HOL-Library.List_Lexorder"
    "HOL-Library.Multiset"
begin

section \<open>Data model (storage/models.py)\<close>

text \<open>
  \<open>datetime.datetime\<close>: the calendar fields, and the UTC offset in minutes of an aware
  value (\<open>None\<close> for a naive one, as \<open>datetime.utcnow()\<close> returns).
\<close>

record datetime =
  year :: nat
  month :: nat
  day :: nat
  hour :: nat
  minute :: nat
  second :: nat
  microsecond :: nat
  utcoffset :: "int option"

text \<open>
  Values of Python's \<open>Any\<close>, as the \<open>extra\<close> mappings and the tool-call records may
  hold them. A \<open>dict\<close> is an association list in insertion order. Tuples, bytes and
  timestamps are values too, although JSON text does not keep them as they are.
\<close>

datatype pyvalue =
    PyNone
  | PyBool bool
  | PyInt int
  | PyFloat real
  | PyStr string
  | PyBytes string
  | PyDatetime datetime
  | PyList "pyvalue list"
  | PyTuple "pyvalue list"
  | PyDict "(string \<times> pyvalue) list"

record message =
  role :: string
  content :: string
  timestamp :: "datetime option"
  tool_calls :: "(string \<times> pyvalue) list list"

record conversation =
  conv_id :: string
  source :: string
  project_path :: "string option"
  created_at :: datetime
  updated_at :: datetime
  messages :: "message list"
  indexed_at :: "datetime option"
  title :: "string option"
  extra :: "(string \<times> pyvalue) list"

record document_metadata =
  md_source :: string
  md_project_path :: "string option"
  conversation_id :: "string option"
  chunk_index :: int
  md_created_at :: datetime
  md_extra :: "(string \<times> pyvalue) list"

text \<open>A float field holds the real value of a finite double.\<close>

record document =
  doc_id :: string
  doc_text :: string
  metadata :: document_metadata
  embedding :: "real list option"

record search_result =
  document :: document
  score :: real
  distance :: real

text \<open>The exceptions that the modelled code and its libraries raise.\<close>

datatype error =
    ValidationError | OverflowError | JSONDecodeError | ZeroDivisionError
  | SchemaError | FilterError | TypeError

section \<open>Timestamps as ISO text\<close>

definition digit :: "nat \<Rightarrow> char" where
  "digit d = char_of (48 + d mod 10)"

text \<open>\<open>"%0wd" % n\<close> for a value of at most \<open>w\<close> digits.\<close>

fun zpad :: "nat \<Rightarrow> nat \<Rightarrow> string" where
  "zpad 0 n = []"
| "zpad (Suc w) n = zpad w (n div 10) @ [digit n]"

definition format_offset :: "int \<Rightarrow> string" where
  "format_offset off =
     (if off < 0 then ''-'' else ''+'') @ zpad 2 (nat \<bar>off\<bar> div 60) @ '':''
       @ zpad 2 (nat \<bar>off\<bar> mod 60)"

text \<open>\<open>datetime.isoformat()\<close>: the fraction is printed only when it is not zero.\<close>

definition fraction :: "nat \<Rightarrow> string" where
  "fraction us = (if us = 0 then [] else ''.'' @ zpad 6 us)"

definition offset_suffix :: "datetime \<Rightarrow> string" where
  "offset_suffix d = (case utcoffset d of None \<Rightarrow> [] | Some off \<Rightarrow> format_offset off)"

definition isoformat :: "datetime \<Rightarrow> string" where
  "isoformat d =
     zpad 4 (year d) @ ''-'' @ zpad 2 (month d) @ ''-'' @ zpad 2 (day d) @ ''T''
       @ zpad 2 (hour d) @ '':'' @ zpad 2 (minute d) @ '':'' @ zpad 2 (second d)
       @ fraction (microsecond d) @ offset_suffix d"

text \<open>
  The constructor of \<open>datetime\<close> accepts these field values (and fewer days in the
  shorter months); an offset lies strictly within one day.
\<close>

definition valid_datetime :: "datetime \<Rightarrow> bool" where
  "valid_datetime d \<longleftrightarrow>
     1 \<le> year d \<and> year d \<le> 9999 \<and> 1 \<le> month d \<and> month d \<le> 12
     \<and> 1 \<le> day d \<and> day d \<le> 31 \<and> hour d < 24 \<and> minute d < 60 \<and> second d < 60
     \<and> microsecond d < 1000000
     \<and> (case utcoffset d of None \<Rightarrow> True | Some off \<Rightarrow> - 1440 < off \<and> off < 1440)"

definition naive :: "datetime \<Rightarrow> bool" where
  "naive d \<longleftrightarrow> utcoffset d = None"

text \<open>The fields in the order in which two values with the same offset are compared.\<close>

definition naive_key :: "datetime \<Rightarrow> nat list" where
  "naive_key d = [year d, month d, day d, hour d, minute d, second d, microsecond d]"

definition is_leap :: "nat \<Rightarrow> bool" where
  "is_leap y \<longleftrightarrow> y mod 4 = 0 \<and> (y mod 100 \<noteq> 0 \<or> y mod 400 = 0)"

definition days_before_year :: "nat \<Rightarrow> nat" where
  "days_before_year y = (y - 1) * 365 + (y - 1) div 4 - (y - 1) div 100 + (y - 1) div 400"

definition days_before_month :: "nat \<Rightarrow> nat \<Rightarrow> nat" where
  "days_before_month y m =
     [0, 0, 31, 59, 90, 120, 151, 181, 212, 243, 273, 304, 334] ! (min m 12)
       + (if m > 2 \<and> is_leap y then 1 else 0)"

definition ordinal :: "datetime \<Rightarrow> nat" where
  "ordinal d = days_before_year (year d) + days_before_month (year d) (month d) + day d"

text \<open>The instant of an aware value, in microseconds of UTC.\<close>

definition utc_micros :: "datetime \<Rightarrow> int" where
  "utc_micros d =
     (((int (ordinal d) * 24 + int (hour d)) * 60 + int (minute d)
         - (case utcoffset d of None \<Rightarrow> 0 | Some off \<Rightarrow> off)) * 60 + int (second d)) * 1000000
       + int (microsecond d)"

text \<open>
  \<open>a <= b\<close> on \<open>datetime\<close>: the fields are compared when both values are naive or
  have the same offset, the instants when the offsets differ, and a naive value cannot
  be compared with an aware one.
\<close>

definition dt_le :: "datetime \<Rightarrow> datetime \<Rightarrow> error + bool" where
  "dt_le a b =
     (case (utcoffset a, utcoffset b) of
        (None, None) \<Rightarrow> Inr (naive_key a \<le> naive_key b)
      | (Some x, Some y) \<Rightarrow>
          Inr (if x = y then naive_key a \<le> naive_key b else utc_micros a \<le> utc_micros b)
      | _ \<Rightarrow> Inl TypeError)"

text \<open>
  The timestamps \<open>ts\<close> compare as ISO text the way they compare as \<open>datetime\<close> values.
\<close>

definition text_ordered :: "datetime list \<Rightarrow> bool" where
  "text_ordered ts \<longleftrightarrow>
     (\<forall>a \<in> set ts. \<forall>b \<in> set ts. (isoformat a \<le> isoformat b) = (dt_le a b = Inr True))"

section \<open>Conversation store (storage/conversation.py)\<close>

text \<open>
  \<open>model_dump_json\<close> and \<open>model_validate_json\<close> belong to the serialisation library;
  they are parameters of the store. \<open>validate_json\<close> is \<open>None\<close> where the library raises.
\<close>

record 'f codec =
  dump_json :: "conversation \<Rightarrow> 'f"
  validate_json :: "'f \<Rightarrow> conversation option"

text \<open>One row of the \<open>conversations\<close> table; the timestamp columns are TEXT.\<close>

record index_row =
  row_id :: string
  row_source :: string
  row_project_path :: "string option"
  row_created_at :: string
  row_updated_at :: string
  row_indexed_at :: "string option"
  row_title :: "string option"
  row_message_count :: nat

text \<open>
  The state of a store: the files below the data directory, by path (a list of
  components), and the rows of the table in rowid order.
\<close>

record 'f store =
  files :: "string list \<rightharpoonup> 'f"
  index :: "index_row list"

text \<open>
  \<open>_conversation_path\<close>, relative to the data directory. The id is formatted into the
  file name and stands here for one path component. The directories that
  \<open>mkdir(exist_ok=True)\<close> creates and the failures of the operating system are not part
  of the state.
\<close>

definition conversation_path :: "string \<Rightarrow> string list" where
  "conversation_path i =
     (let shard = (if length i \<ge> 2 then take 2 i else ''00'')
      in [''conversations'', shard, i @ ''.json''])"

text \<open>
  \<open>PurePath.with_suffix\<close> on the last component: the suffix starts at the last dot,
  unless that dot is the first or the last character of the name.
\<close>

definition name_with_suffix :: "string \<Rightarrow> string \<Rightarrow> string" where
  "name_with_suffix name suffix =
     (let ext = rev (takeWhile (\<lambda>c. c \<noteq> CHR ''.'') (rev name));
          i = length name - length ext - 1
      in if CHR ''.'' \<in> set name \<and> 0 < i \<and> ext \<noteq> [] then take i name @ suffix
         else name @ suffix)"

definition with_suffix :: "string list \<Rightarrow> string \<Rightarrow> string list" where
  "with_suffix p suffix = butlast p @ [name_with_suffix (last p) suffix]"

definition write_text :: "(string list \<rightharpoonup> 'f) \<Rightarrow> string list \<Rightarrow> 'f \<Rightarrow> (string list \<rightharpoonup> 'f)" where
  "write_text fs p data = fs(p \<mapsto> data)"

definition rename :: "(string list \<rightharpoonup> 'f) \<Rightarrow> string list \<Rightarrow> string list \<Rightarrow> (string list \<rightharpoonup> 'f)" where
  "rename fs src dst = (if src = dst then fs else (fs(src := None))(dst := fs src))"

definition row_of :: "conversation \<Rightarrow> index_row" where
  "row_of c =
     \<lparr>row_id = conv_id c, row_source = source c, row_project_path = project_path c,
      row_created_at = isoformat (created_at c), row_updated_at = isoformat (updated_at c),
      row_indexed_at = map_option isoformat (indexed_at c), row_title = title c,
      row_message_count = length (messages c)\<rparr>"

text \<open>\<open>INSERT OR REPLACE\<close>: a row with the same primary key is removed, the new row is added.\<close>

definition insert_or_replace :: "index_row \<Rightarrow> index_row list \<Rightarrow> index_row list" where
  "insert_or_replace r rows = filter (\<lambda>x. row_id x \<noteq> row_id r) rows @ [r]"

text \<open>
  \<open>ConversationStore.save\<close>: the record is written to the temporary file, the file is
  renamed onto the shard file, then the row is upserted.
\<close>

definition save :: "'f codec \<Rightarrow> 'f store \<Rightarrow> conversation \<Rightarrow> 'f store" where
  "save J st c =
     (let path = conversation_path (conv_id c);
          temp_path = with_suffix path ''.tmp'';
          body = dump_json J c;
          fs1 = write_text (files st) temp_path body;
          fs2 = rename fs1 temp_path path
      in st\<lparr>files := fs2, index := insert_or_replace (row_of c) (index st)\<rparr>)"

text \<open>\<open>ConversationStore.get\<close> reads the shard file and does not look at the table.\<close>

definition get :: "'f codec \<Rightarrow> 'f store \<Rightarrow> string \<Rightarrow> error + conversation option" where
  "get J st i =
     (case files st (conversation_path i) of
        None \<Rightarrow> Inr None
      | Some body \<Rightarrow>
          (case validate_json J body of
             None \<Rightarrow> Inl ValidationError
           | Some c \<Rightarrow> Inr (Some c)))"

text \<open>\<open>ConversationStore.delete\<close>.\<close>

definition delete :: "'f store \<Rightarrow> string \<Rightarrow> bool \<times> 'f store" where
  "delete st i =
     (let path = conversation_path i;
          existed = (files st path \<noteq> None);
          fs = (if existed then (files st)(path := None) else files st)
      in (existed, st\<lparr>files := fs, index := filter (\<lambda>r. row_id r \<noteq> i) (index st)\<rparr>))"

text \<open>
  \<open>mark_indexed\<close>. The clock is a parameter: \<open>now\<close> is what \<open>datetime.utcnow()\<close>
  returns. A \<open>datetime\<close> is always truthy, so \<open>indexed_at or utcnow()\<close> is the given
  timestamp whenever one is given.
\<close>

definition mark_indexed ::
  "'f codec \<Rightarrow> 'f store \<Rightarrow> datetime \<Rightarrow> string \<Rightarrow> datetime option \<Rightarrow> error + 'f store" where
  "mark_indexed J st utcnow i t =
     (let now = (case t of Some d \<Rightarrow> d | None \<Rightarrow> utcnow);
          st1 = st\<lparr>index := map (\<lambda>r. if row_id r = i
                                        then r\<lparr>row_indexed_at := Some (isoformat now)\<rparr>
                                        else r) (index st)\<rparr>
      in case get J st1 i of
           Inl e \<Rightarrow> Inl e
         | Inr None \<Rightarrow> Inr st1
         | Inr (Some conv) \<Rightarrow> Inr (save J st1 (conv\<lparr>indexed_at := Some now\<rparr>)))"

record stats =
  total_conversations :: nat
  indexed_conversations :: nat
  unique_projects :: nat

text \<open>\<open>COUNT(DISTINCT project_path)\<close> counts the distinct values that are not NULL.\<close>

definition get_stats :: "'f store \<Rightarrow> stats" where
  "get_stats st =
     \<lparr>total_conversations = length (index st),
      indexed_conversations = length (filter (\<lambda>r. row_indexed_at r \<noteq> None) (index st)),
      unique_projects =
        length (remdups (map the (filter (\<lambda>p. p \<noteq> None) (map row_project_path (index st)))))\<rparr>"

text \<open>An integer bound to a statement parameter has to fit a 64-bit signed column value.\<close>

definition bind_int :: "int \<Rightarrow> error + int" where
  "bind_int n = (if - (2 ^ 63) \<le> n \<and> n < 2 ^ 63 then Inr n else Inl OverflowError)"

text \<open>
  \<open>ORDER BY key DESC\<close> on a TEXT column compares the strings byte by byte; rows
  with equal keys come in an order the engine chooses, here the reverse of the stable
  ascending sort.
\<close>

definition order_by_desc :: "(index_row \<Rightarrow> string) \<Rightarrow> index_row list \<Rightarrow> index_row list" where
  "order_by_desc key rows = rev (sort_key key rows)"

definition order_by_asc :: "(index_row \<Rightarrow> string) \<Rightarrow> index_row list \<Rightarrow> index_row list" where
  "order_by_asc key rows = sort_key key rows"

text \<open>\<open>LIMIT ? OFFSET ?\<close>: a negative limit is no limit, a negative offset is 0.\<close>

definition limit_offset :: "int \<Rightarrow> int \<Rightarrow> 'a list \<Rightarrow> 'a list" where
  "limit_offset lmt off xs =
     (let ys = drop (nat off) xs in if lmt < 0 then ys else take (nat lmt) ys)"

text \<open>The loop that reads the selected ids one by one and skips those without a file.\<close>

fun hydrate :: "'f codec \<Rightarrow> 'f store \<Rightarrow> string list \<Rightarrow> error + conversation list" where
  "hydrate J st [] = Inr []"
| "hydrate J st (i # ids) =
     (case get J st i of
        Inl e \<Rightarrow> Inl e
      | Inr conv \<Rightarrow>
          (case hydrate J st ids of
             Inl e \<Rightarrow> Inl e
           | Inr conversations \<Rightarrow>
               Inr (case conv of None \<Rightarrow> conversations | Some c \<Rightarrow> c # conversations)))"

text \<open>\<open>ConversationStore.list_all\<close>.\<close>

definition list_all_conversations ::
  "'f codec \<Rightarrow> 'f store \<Rightarrow> int \<Rightarrow> int \<Rightarrow> error + conversation list" where
  "list_all_conversations J st limit offset =
     (case bind_int limit of
        Inl e \<Rightarrow> Inl e
      | Inr lmt \<Rightarrow>
          (case bind_int offset of
             Inl e \<Rightarrow> Inl e
           | Inr off \<Rightarrow>
               hydrate J st
                 (map row_id (limit_offset lmt off (order_by_desc row_updated_at (index st))))))"

definition list_by_project ::
  "'f codec \<Rightarrow> 'f store \<Rightarrow> string \<Rightarrow> int \<Rightarrow> int \<Rightarrow> error + conversation list" where
  "list_by_project J st path limit offset =
     (case bind_int limit of
        Inl e \<Rightarrow> Inl e
      | Inr lmt \<Rightarrow>
          (case bind_int offset of
             Inl e \<Rightarrow> Inl e
           | Inr off \<Rightarrow>
               hydrate J st
                 (map row_id (limit_offset lmt off (order_by_desc row_updated_at
                    (filter (\<lambda>r. row_project_path r = Some path) (index st)))))))"

text \<open>\<open>if source:\<close> adds the condition on the source for a string that is given and not empty.\<close>

definition list_by_date_range ::
  "'f codec \<Rightarrow> 'f store \<Rightarrow> datetime \<Rightarrow> datetime \<Rightarrow> string option \<Rightarrow> int
     \<Rightarrow> error + conversation list" where
  "list_by_date_range J st start end' src limit =
     (case bind_int limit of
        Inl e \<Rightarrow> Inl e
      | Inr lmt \<Rightarrow>
          (let rows = filter (\<lambda>r. isoformat start \<le> row_created_at r
                                \<and> row_created_at r \<le> isoformat end'
                                \<and> (case src of
                                     None \<Rightarrow> True
                                   | Some s \<Rightarrow> if s \<noteq> [] then row_source r = s else True))
                        (index st)
           in hydrate J st (map row_id (limit_offset lmt 0 (order_by_desc row_created_at rows)))))"

definition list_unindexed :: "'f codec \<Rightarrow> 'f store \<Rightarrow> int \<Rightarrow> error + conversation list" where
  "list_unindexed J st limit =
     (case bind_int limit of
        Inl e \<Rightarrow> Inl e
      | Inr lmt \<Rightarrow>
          hydrate J st
            (map row_id (limit_offset lmt 0 (order_by_asc row_created_at
               (filter (\<lambda>r. row_indexed_at r = None) (index st))))))"

text \<open>
  The store holds exactly the conversations \<open>cs\<close>: the table has their rows, under
  distinct ids, and the file of each is present and reads as that conversation.
\<close>

definition holds :: "'f codec \<Rightarrow> 'f store \<Rightarrow> conversation list \<Rightarrow> bool" where
  "holds J st cs \<longleftrightarrow>
     index st = map row_of cs \<and> distinct (map conv_id cs)
     \<and> list_all (\<lambda>c. get J st (conv_id c) = Inr (Some c)) cs"

section \<open>Vector store (storage/vector.py)\<close>

text \<open>One row of the \<open>documents\<close> table, with the columns of the schema.\<close>

record table_row =
  col_id :: string
  col_text :: string
  col_vector :: "real list"
  col_source :: string
  col_project_path :: string
  col_conversation_id :: string
  col_chunk_index :: int
  col_created_at :: string
  col_extra :: string

text \<open>
  The table engine is not part of the repository. What the module needs of it is a
  parameter: \<open>sql_where\<close> reads a filter string as a predicate on rows (\<open>None\<close> where
  the engine rejects the string), \<open>metric\<close> is the distance of the ranking, and
  \<open>scan_limit\<close> is the bound the engine puts on a query that sets no limit (\<open>None\<close>
  for no bound).
\<close>

record engine =
  sql_where :: "string \<Rightarrow> (table_row \<Rightarrow> bool) option"
  metric :: "real list \<Rightarrow> real list \<Rightarrow> real"
  scan_limit :: "nat option"

text \<open>
  \<open>json.dumps\<close>, \<open>json.loads\<close> and the parsing of an ISO string by the model
  validation are parameters too; \<open>None\<close> is where they raise.
\<close>

record serde =
  json_dumps :: "(string \<times> pyvalue) list \<Rightarrow> string"
  json_loads :: "string \<Rightarrow> (string \<times> pyvalue) list option"
  parse_datetime :: "string \<Rightarrow> datetime option"

record vector_store =
  dimension :: nat
  table :: "table_row list"

definition or_empty :: "string option \<Rightarrow> string" where
  "or_empty v = (case v of None \<Rightarrow> [] | Some s \<Rightarrow> s)"

definition or_none :: "string \<Rightarrow> string option" where
  "or_none s = (if s = [] then None else Some s)"

definition row_of_document :: "serde \<Rightarrow> document \<Rightarrow> real list \<Rightarrow> table_row" where
  "row_of_document S doc emb =
     \<lparr>col_id = doc_id doc, col_text = doc_text doc, col_vector = emb,
      col_source = md_source (metadata doc),
      col_project_path = or_empty (md_project_path (metadata doc)),
      col_conversation_id = or_empty (conversation_id (metadata doc)),
      col_chunk_index = chunk_index (metadata doc),
      col_created_at = isoformat (md_created_at (metadata doc)),
      col_extra = json_dumps S (md_extra (metadata doc))\<rparr>"

text \<open>
  \<open>merge_insert("id")\<close> with update-all on a match and insert-all otherwise, one
  source row at a time.
\<close>

definition upsert :: "table_row \<Rightarrow> table_row list \<Rightarrow> table_row list" where
  "upsert r rows =
     (if \<exists>x \<in> set rows. col_id x = col_id r
      then map (\<lambda>x. if col_id x = col_id r then r else x) rows
      else rows @ [r])"

definition merge_insert :: "table_row list \<Rightarrow> table_row list \<Rightarrow> table_row list" where
  "merge_insert rows data = fold upsert data rows"

text \<open>A row fits the schema when its vector has the table's length and its chunk index is an int32.\<close>

definition fits_schema :: "vector_store \<Rightarrow> table_row \<Rightarrow> bool" where
  "fits_schema vs r \<longleftrightarrow>
     length (col_vector r) = dimension vs
     \<and> - (2 ^ 31) \<le> col_chunk_index r \<and> col_chunk_index r < 2 ^ 31"

text \<open>\<open>VectorStore.add\<close>.\<close>

definition add :: "serde \<Rightarrow> vector_store \<Rightarrow> document \<Rightarrow> real list \<Rightarrow> error + vector_store" where
  "add S vs doc emb =
     (let data = [row_of_document S doc emb]
      in if list_all (fits_schema vs) data
         then Inr (vs\<lparr>table := merge_insert (table vs) data\<rparr>)
         else Inl SchemaError)"

text \<open>The row dictionary read back as a \<open>Document\<close>.\<close>

definition document_of_row :: "serde \<Rightarrow> table_row \<Rightarrow> error + document" where
  "document_of_row S row =
     (case (if col_extra row \<noteq> [] then json_loads S (col_extra row) else Some []) of
        None \<Rightarrow> Inl JSONDecodeError
      | Some ex \<Rightarrow>
          (case parse_datetime S (col_created_at row) of
             None \<Rightarrow> Inl ValidationError
           | Some d \<Rightarrow>
               Inr \<lparr>doc_id = col_id row, doc_text = col_text row,
                    metadata =
                      \<lparr>md_source = col_source row,
                       md_project_path = or_none (col_project_path row),
                       conversation_id = or_none (col_conversation_id row),
                       chunk_index = col_chunk_index row,
                       md_created_at = d, md_extra = ex\<rparr>,
                    embedding = None\<rparr>))"

text \<open>
  Modelled from the spec: the engine's vector query, which is not under src/. It
  returns up to \<open>limit\<close> rows in ascending distance from the query vector, nearest first,
  among the rows that satisfy the filter (the filter is evaluated before the ranking),
  each with its distance under \<open>_distance\<close>.
\<close>

definition vector_query ::
  "engine \<Rightarrow> table_row list \<Rightarrow> real list \<Rightarrow> int \<Rightarrow> (table_row \<Rightarrow> bool)
     \<Rightarrow> (table_row \<times> real option) list" where
  "vector_query E rows q limit p =
     map (\<lambda>r. (r, Some (metric E q (col_vector r))))
       (take (nat limit) (sort_key (\<lambda>r. metric E q (col_vector r)) (filter p rows)))"

text \<open>
  Python floats are IEEE 754 doubles. The values that occur are finite and are kept as
  reals; an operation gives the exact result rounded to the nearest double, to the even
  one at a tie. \<open>binade\<close> is the exponent of the value, held at \<open>-1022\<close> in the subnormal
  range, and \<open>ulp\<close> the spacing of the doubles there. A result of magnitude \<open>2^1024\<close> or
  more (\<open>inf\<close> in the code) does not arise in \<open>1.0 / (1.0 + distance)\<close> from a finite
  double and is not represented.
\<close>

definition rne :: "real \<Rightarrow> int" where
  "rne x =
     (let f = \<lfloor>x\<rfloor>; r = x - of_int f
      in if r < 1 / 2 then f else if 1 / 2 < r then f + 1 else if even f then f else f + 1)"

definition binade :: "real \<Rightarrow> int" where
  "binade x = max \<lfloor>log 2 \<bar>x\<bar>\<rfloor> (- 1022)"

definition ulp :: "real \<Rightarrow> real" where
  "ulp x = 2 powr (of_int (binade x) - 52)"

definition round_double :: "real \<Rightarrow> real" where
  "round_double x = of_int (rne (x / ulp x)) * ulp x"

definition float_add :: "real \<Rightarrow> real \<Rightarrow> real" where
  "float_add a b = round_double (a + b)"

definition float_div :: "real \<Rightarrow> real \<Rightarrow> real" where
  "float_div a b = round_double (a / b)"

text \<open>The largest finite double.\<close>

definition max_double :: real where
  "max_double = 2 ^ 1024 - 2 ^ 971"

definition search_result_of :: "serde \<Rightarrow> table_row \<times> real option \<Rightarrow> error + search_result" where
  "search_result_of S hit =
     (case document_of_row S (fst hit) of
        Inl e \<Rightarrow> Inl e
      | Inr doc \<Rightarrow>
          (let dist = (case snd hit of None \<Rightarrow> 0 | Some d \<Rightarrow> d);
               denominator = float_add 1 dist
           in if denominator = 0 then Inl ZeroDivisionError
              else Inr \<lparr>document = doc, score = float_div 1 denominator, distance = dist\<rparr>))"

fun search_results :: "serde \<Rightarrow> (table_row \<times> real option) list \<Rightarrow> error + search_result list" where
  "search_results S [] = Inr []"
| "search_results S (hit # hits) =
     (case search_result_of S hit of
        Inl e \<Rightarrow> Inl e
      | Inr r \<Rightarrow>
          (case search_results S hits of
             Inl e \<Rightarrow> Inl e
           | Inr rs \<Rightarrow> Inr (r # rs)))"

text \<open>
  \<open>VectorStore.search\<close>. \<open>if filter_expr:\<close> holds for a string that is given and
  not empty.
\<close>

definition search ::
  "engine \<Rightarrow> serde \<Rightarrow> vector_store \<Rightarrow> real list \<Rightarrow> int \<Rightarrow> string option
     \<Rightarrow> error + search_result list" where
  "search E S vs emb limit filter_expr =
     (case (case filter_expr of
              None \<Rightarrow> Some (\<lambda>r. True)
            | Some f \<Rightarrow> if f \<noteq> [] then sql_where E f else Some (\<lambda>r. True)) of
        None \<Rightarrow> Inl FilterError
      | Some p \<Rightarrow> search_results S (vector_query E (table vs) emb limit p))"

definition quote :: char where
  "quote = CHR 0x27"

definition id_filter :: "string \<Rightarrow> string" where
  "id_filter i = ''id = '' @ [quote] @ i @ [quote]"

definition conversation_filter :: "string \<Rightarrow> string" where
  "conversation_filter c = ''conversation_id = '' @ [quote] @ c @ [quote]"

text \<open>A query without a vector: the rows that satisfy the filter, in table order.\<close>

definition scan :: "table_row list \<Rightarrow> (table_row \<Rightarrow> bool) \<Rightarrow> nat option \<Rightarrow> table_row list" where
  "scan rows p bound = (case bound of None \<Rightarrow> filter p rows | Some n \<Rightarrow> take n (filter p rows))"

text \<open>\<open>VectorStore.get\<close>, \<open>VectorStore.delete\<close> and \<open>VectorStore.delete_by_conversation\<close>.\<close>

definition vector_get :: "engine \<Rightarrow> serde \<Rightarrow> vector_store \<Rightarrow> string \<Rightarrow> error + document option" where
  "vector_get E S vs i =
     (case sql_where E (id_filter i) of
        None \<Rightarrow> Inl FilterError
      | Some p \<Rightarrow>
          (case scan (table vs) p (Some 1) of
             [] \<Rightarrow> Inr None
           | row # _ \<Rightarrow>
               (case document_of_row S row of
                  Inl e \<Rightarrow> Inl e
                | Inr doc \<Rightarrow> Inr (Some doc))))"

definition table_delete :: "table_row list \<Rightarrow> (table_row \<Rightarrow> bool) \<Rightarrow> table_row list" where
  "table_delete rows p = filter (\<lambda>r. \<not> p r) rows"

definition vector_delete :: "engine \<Rightarrow> vector_store \<Rightarrow> string \<Rightarrow> error + bool \<times> vector_store" where
  "vector_delete E vs i =
     (case sql_where E (id_filter i) of
        None \<Rightarrow> Inl FilterError
      | Some p \<Rightarrow> Inr (True, vs\<lparr>table := table_delete (table vs) p\<rparr>))"

definition delete_by_conversation ::
  "engine \<Rightarrow> vector_store \<Rightarrow> string \<Rightarrow> error + nat \<times> vector_store" where
  "delete_by_conversation E vs c =
     (case sql_where E (conversation_filter c) of
        None \<Rightarrow> Inl FilterError
      | Some p \<Rightarrow>
          (let count_results = scan (table vs) p (scan_limit E);
               count = length count_results
           in Inr (count, vs\<lparr>table := table_delete (table vs) p\<rparr>)))"

text \<open>
  An engine for the equality filters the module builds, read as SQL reads them:
  \<open>column = 'literal'\<close>, where the literal ends at the first quote that is not
  doubled, a doubled quote stands for one quote, and nothing follows the closing quote.
  A string of any other shape is rejected.
\<close>

fun sql_string_body :: "string \<Rightarrow> string option" where
  "sql_string_body [] = None"
| "sql_string_body [c] = (if c = quote then Some [] else None)"
| "sql_string_body (c # d # cs) =
     (if c = quote
      then (if d = quote then map_option ((#) quote) (sql_string_body cs) else None)
      else map_option ((#) c) (sql_string_body (d # cs)))"

definition string_column :: "string \<Rightarrow> (table_row \<Rightarrow> string) option" where
  "string_column n =
     (if n = ''id'' then Some col_id
      else if n = ''text'' then Some col_text
      else if n = ''source'' then Some col_source
      else if n = ''project_path'' then Some col_project_path
      else if n = ''conversation_id'' then Some col_conversation_id
      else if n = ''created_at'' then Some col_created_at
      else if n = ''extra'' then Some col_extra
      else None)"

definition sql_equals :: "string \<Rightarrow> (table_row \<Rightarrow> bool) option" where
  "sql_equals s =
     (let name = takeWhile (\<lambda>c. c \<noteq> CHR '' '') s;
          rest = dropWhile (\<lambda>c. c \<noteq> CHR '' '') s
      in case string_column name of
           None \<Rightarrow> None
         | Some col \<Rightarrow>
             if take 4 rest = '' = '' @ [quote]
             then map_option (\<lambda>lit r. col r = lit) (sql_string_body (drop 4 rest))
             else None)"

text \<open>The squared Euclidean distance, on the common prefix of the two vectors.\<close>

definition l2 :: "real list \<Rightarrow> real list \<Rightarrow> real" where
  "l2 u v = sum_list (map (\<lambda>(x, y). (x - y)\<^sup>2) (zip u v))"

definition sql_engine :: engine where
  "sql_engine = \<lparr>sql_where = sql_equals, metric = l2, scan_limit = None\<rparr>"

section \<open>Sample inputs\<close>

definition conv1 :: conversation where
  "conv1 =
     \<lparr>conv_id = ''c1'', source = ''claude_code'', project_path = Some ''/home/user/project'',
      created_at = \<lparr>year = 2024, month = 1, day = 2, hour = 3, minute = 4, second = 5,
                    microsecond = 0, utcoffset = None\<rparr>,
      updated_at = \<lparr>year = 2024, month = 1, day = 2, hour = 3, minute = 4, second = 6,
                    microsecond = 250000, utcoffset = None\<rparr>,
      messages =
        [\<lparr>role = ''user'', content = ''Hello'', timestamp = None, tool_calls = []\<rparr>,
         \<lparr>role = ''assistant'', content = ''Hi'', timestamp = None,
          tool_calls = [[(''name'', PyStr ''read_file''), (''args'', PyDict [(''n'', PyInt 1)])]]\<rparr>],
      indexed_at = None, title = None, extra = [(''k'', PyList [PyBool True, PyNone])]\<rparr>"

definition time1 :: datetime where
  "time1 = \<lparr>year = 2024, month = 1, day = 3, hour = 0, minute = 0, second = 0,
            microsecond = 0, utcoffset = None\<rparr>"

definition id_codec :: "conversation codec" where
  "id_codec = \<lparr>dump_json = (\<lambda>c. c), validate_json = Some\<rparr>"

definition empty_store :: "'f store" where
  "empty_store = \<lparr>files = Map.empty, index = []\<rparr>"

definition row_only :: "conversation store" where
  "row_only = \<lparr>files = Map.empty, index = [row_of conv1]\<rparr>"

definition time0 :: datetime where
  "time0 = \<lparr>year = 2024, month = 1, day = 1, hour = 0, minute = 0, second = 0,
            microsecond = 0, utcoffset = None\<rparr>"

definition conv2 :: conversation where
  "conv2 = conv1\<lparr>conv_id := ''c2'', source := ''other'', created_at := time1, updated_at := time1\<rparr>"

definition conv3 :: conversation where
  "conv3 = conv1\<lparr>conv_id := ''c3'', created_at := time0, updated_at := time0\<rparr>"

definition store3 :: "conversation store" where
  "store3 = save id_codec (save id_codec (save id_codec empty_store conv1) conv2) conv3"

definition aware :: "nat \<Rightarrow> int \<Rightarrow> datetime" where
  "aware h off = \<lparr>year = 2024, month = 1, day = 1, hour = h, minute = 0, second = 0,
                  microsecond = 0, utcoffset = Some off\<rparr>"

definition convA :: conversation where
  "convA = conv1\<lparr>conv_id := ''cA'', created_at := aware 10 0, updated_at := aware 10 0\<rparr>"

definition convB :: conversation where
  "convB = conv1\<lparr>conv_id := ''cB'', created_at := aware 9 (- 300), updated_at := aware 9 (- 300)\<rparr>"

definition convC :: conversation where
  "convC = conv1\<lparr>conv_id := ''cC'', created_at := aware 8 (- 540), updated_at := aware 8 (- 540)\<rparr>"

definition aware_store :: "conversation store" where
  "aware_store = save id_codec (save id_codec (save id_codec empty_store convA) convB) convC"

definition sample_serde :: serde where
  "sample_serde =
     \<lparr>json_dumps = (\<lambda>e. if e = [] then ''{}'' else ''{...}''),
      json_loads = (\<lambda>s. if s = ''{}'' then Some [] else None),
      parse_datetime = (\<lambda>s. if s = isoformat time1 then Some time1 else None)\<rparr>"

definition doc0 :: document where
  "doc0 =
     \<lparr>doc_id = ''d0'', doc_text = ''Hello world'',
      metadata = \<lparr>md_source = ''test'', md_project_path = Some [], conversation_id = None,
                  chunk_index = 0, md_created_at = time1, md_extra = []\<rparr>,
      embedding = None\<rparr>"

definition doc1 :: document where
  "doc1 =
     \<lparr>doc_id = ''d1'', doc_text = ''Chunk'',
      metadata = \<lparr>md_source = ''other'', md_project_path = Some ''/p'',
                  conversation_id = Some ''a'b'',
                  chunk_index = 1, md_created_at = time1, md_extra = []\<rparr>,
      embedding = None\<rparr>"

definition vectors0 :: vector_store where
  "vectors0 = \<lparr>dimension = 2, table = []\<rparr>"

definition vectors1 :: vector_store where
  "vectors1 = \<lparr>dimension = 2, table = [row_of_document sample_serde doc0 [0, 0]]\<rparr>"

definition vectors2 :: vector_store where
  "vectors2 =
     \<lparr>dimension = 2,
      table = [row_of_document sample_serde doc0 [0, 0], row_of_document sample_serde doc1 [3, 4]]\<rparr>"

definition tiny_vectors :: vector_store where
  "tiny_vectors =
     \<lparr>dimension = 2,
      table = [row_of_document sample_serde doc0 [1 / 2 ^ 30, 0],
               row_of_document sample_serde doc1 [1 / 2 ^ 29, 0]]\<rparr>"

definition source_filter :: string where
  "source_filter = ''source = '' @ [quote] @ ''test'' @ [quote]"

definition read0 :: document where
  "read0 = doc0\<lparr>metadata := (metadata doc0)\<lparr>md_project_path := None\<rparr>\<rparr>"

section \<open>The order of ISO timestamps\<close>

lemma length_zpad [simp]: "length (zpad w n) = w"
  by (induction w arbitrary: n) auto

lemma of_char_digit: "of_char (digit d) = (48 + d mod 10 :: nat)"
  by (simp add: digit_def)

lemma digit_less: "digit a < digit b \<longleftrightarrow> a mod 10 < b mod 10"
  by (simp add: less_char_def of_char_digit)

lemma digit_eq: "digit a = digit b \<longleftrightarrow> a mod 10 = b mod 10"
proof
  assume "digit a = digit b"
  then have "(of_char (digit a) :: nat) = of_char (digit b)" by simp
  then show "a mod 10 = b mod 10" by (simp add: of_char_digit)
next
  assume "a mod 10 = b mod 10"
  then show "digit a = digit b" by (simp add: digit_def)
qed

lemma lex_append_less:
  fixes xs :: "'a::linorder list"
  shows "length xs = length xs' \<Longrightarrow>
    (xs @ ys < xs' @ ys') = (xs < xs' \<or> xs = xs' \<and> ys < ys')"
  by (induction xs xs' rule: list_induct2) auto



lemma split10_eq: "(a::nat) = b \<longleftrightarrow> a div 10 = b div 10 \<and> a mod 10 = b mod 10"
proof
  assume "a div 10 = b div 10 \<and> a mod 10 = b mod 10"
  then have "a div 10 * 10 + a mod 10 = b div 10 * 10 + b mod 10" by simp
  then show "a = b" by (simp only: div_mult_mod_eq)
qed simp

lemma split10_less:
  "(a::nat) < b \<longleftrightarrow> a div 10 < b div 10 \<or> a div 10 = b div 10 \<and> a mod 10 < b mod 10"
proof -
  define qa ra qb rb where "qa = a div 10" and "ra = a mod 10" and "qb = b div 10" and "rb = b mod 10"
  have a: "a = 10 * qa + ra" and ra: "ra < 10" by (simp_all add: qa_def ra_def)
  have b: "b = 10 * qb + rb" and rb: "rb < 10" by (simp_all add: qb_def rb_def)
  have "10 * qa + ra < 10 * qb + rb \<longleftrightarrow> qa < qb \<or> qa = qb \<and> ra < rb"
    using ra rb by linarith
  then show ?thesis
    unfolding qa_def [symmetric] ra_def [symmetric] qb_def [symmetric] rb_def [symmetric]
    using a b by simp
qed


lemma div10_bound: "(a::nat) < 10 ^ Suc w \<Longrightarrow> a div 10 < 10 ^ w"
  by (simp add: less_mult_imp_div_less mult.commute)

lemma zpad_eq: "a < 10 ^ w \<Longrightarrow> b < 10 ^ w \<Longrightarrow> zpad w a = zpad w b \<longleftrightarrow> a = b"
proof (induction w arbitrary: a b)
  case 0
  then show ?case by simp
next
  case (Suc w)
  have "zpad w (a div 10) = zpad w (b div 10) \<longleftrightarrow> a div 10 = b div 10"
    using Suc.prems by (intro Suc.IH div10_bound)
  then show ?case
    using split10_eq [of a b] by (simp add: digit_eq)
qed

lemma zpad_less: "a < 10 ^ w \<Longrightarrow> b < 10 ^ w \<Longrightarrow> zpad w a < zpad w b \<longleftrightarrow> a < b"
proof (induction w arbitrary: a b)
  case 0
  then show ?case by simp
next
  case (Suc w)
  have l: "zpad w (a div 10) < zpad w (b div 10) \<longleftrightarrow> a div 10 < b div 10"
    using Suc.prems by (intro Suc.IH div10_bound)
  have e: "zpad w (a div 10) = zpad w (b div 10) \<longleftrightarrow> a div 10 = b div 10"
    using Suc.prems by (intro zpad_eq div10_bound)
  show ?case
    using split10_less [of a b] by (simp add: lex_append_less l e digit_less)
qed


lemma seg_less:
  "a < 10 ^ w \<Longrightarrow> b < 10 ^ w \<Longrightarrow>
     zpad w a @ r < zpad w b @ r' \<longleftrightarrow> a < b \<or> a = b \<and> r < r'"
  by (simp add: lex_append_less zpad_less zpad_eq)

lemma seg_eq:
  "a < 10 ^ w \<Longrightarrow> b < 10 ^ w \<Longrightarrow> zpad w a @ r = zpad w b @ r' \<longleftrightarrow> a = b \<and> r = r'"
  by (simp add: zpad_eq)

lemma fraction_less:
  "a < 10 ^ 6 \<Longrightarrow> b < 10 ^ 6 \<Longrightarrow> fraction a < fraction b \<longleftrightarrow> a < b"
  using zpad_less [of a 6 b] by (auto simp: fraction_def)

lemma fraction_eq:
  "a < 10 ^ 6 \<Longrightarrow> b < 10 ^ 6 \<Longrightarrow> fraction a = fraction b \<longleftrightarrow> a = b"
  using zpad_eq [of a 6 b] by (auto simp: fraction_def)

lemma valid_bounds:
  assumes "valid_datetime d"
  shows "year d < 10 ^ 4" "month d < 10 ^ 2" "day d < 10 ^ 2" "hour d < 10 ^ 2"
    "minute d < 10 ^ 2" "second d < 10 ^ 2" "microsecond d < 10 ^ 6"
  using assms by (simp_all add: valid_datetime_def)

lemma isoformat_parts:
  "isoformat d = zpad 4 (year d) @ CHR ''-'' # zpad 2 (month d) @ CHR ''-'' # zpad 2 (day d)
       @ CHR ''T'' # zpad 2 (hour d) @ CHR '':'' # zpad 2 (minute d) @ CHR '':''
       # zpad 2 (second d) @ fraction (microsecond d) @ offset_suffix d"
  by (simp add: isoformat_def del: zpad.simps)

lemma offset_suffix_head:
  "offset_suffix d = [] \<or> (\<exists>c cs. offset_suffix d = c # cs \<and> c < CHR ''.'')"
  by (auto simp: offset_suffix_def format_offset_def less_char_def split: option.splits)

lemma tail_less:
  assumes "a < 10 ^ 6" and "b < 10 ^ 6"
    and "sfx = [] \<or> (\<exists>c cs. sfx = c # cs \<and> c < CHR ''.'')"
  shows "fraction a @ sfx < fraction b @ sfx \<longleftrightarrow> a < b"
  using assms seg_less [of a 6 b sfx sfx]
  by (auto simp: fraction_def simp del: zpad.simps)

lemma tail_eq:
  assumes "a < 10 ^ 6" and "b < 10 ^ 6"
    and "sfx = [] \<or> (\<exists>c cs. sfx = c # cs \<and> c < CHR ''.'')"
  shows "fraction a @ sfx = fraction b @ sfx \<longleftrightarrow> a = b"
  using assms zpad_eq [of a 6 b]
  by (auto simp: fraction_def simp del: zpad.simps)

lemma isoformat_less_offset:
  assumes "valid_datetime a" "valid_datetime b" "utcoffset a = utcoffset b"
  shows "isoformat a < isoformat b \<longleftrightarrow> naive_key a < naive_key b"
proof -
  have s: "offset_suffix a = offset_suffix b" using assms(3) by (simp add: offset_suffix_def)
  show ?thesis
    unfolding isoformat_parts s naive_key_def
    using valid_bounds [OF assms(1)] valid_bounds [OF assms(2)] offset_suffix_head [of b]
    by (simp add: seg_less tail_less del: zpad.simps)
qed

lemma isoformat_eq_offset:
  assumes "valid_datetime a" "valid_datetime b" "utcoffset a = utcoffset b"
  shows "isoformat a = isoformat b \<longleftrightarrow> naive_key a = naive_key b"
proof -
  have s: "offset_suffix a = offset_suffix b" using assms(3) by (simp add: offset_suffix_def)
  show ?thesis
    unfolding isoformat_parts s naive_key_def
    using valid_bounds [OF assms(1)] valid_bounds [OF assms(2)] offset_suffix_head [of b]
    by (simp add: seg_eq zpad_eq tail_eq fraction_eq del: zpad.simps)
qed

lemma isoformat_le_offset:
  assumes "valid_datetime a" "valid_datetime b" "utcoffset a = utcoffset b"
  shows "isoformat a \<le> isoformat b \<longleftrightarrow> naive_key a \<le> naive_key b"
  using isoformat_less_offset [OF assms] isoformat_eq_offset [OF assms] by (simp add: le_less)

lemma dt_le_offset:
  "utcoffset a = utcoffset b \<Longrightarrow> dt_le a b = Inr (naive_key a \<le> naive_key b)"
  by (cases "utcoffset b") (simp_all add: dt_le_def)

lemma same_offset_text_ordered:
  assumes "\<forall>d \<in> set ts. valid_datetime d \<and> utcoffset d = off"
  shows "text_ordered ts"
  unfolding text_ordered_def
proof (intro ballI)
  fix a b assume "a \<in> set ts" "b \<in> set ts"
  with assms have v: "valid_datetime a" "valid_datetime b" "utcoffset a = utcoffset b" by auto
  show "(isoformat a \<le> isoformat b) = (dt_le a b = Inr True)"
    using isoformat_le_offset [OF v] dt_le_offset [OF v(3)] by simp
qed

lemma text_orderedD:
  "text_ordered ts \<Longrightarrow> a \<in> set ts \<Longrightarrow> b \<in> set ts \<Longrightarrow>
     (isoformat a \<le> isoformat b) = (dt_le a b = Inr True)"
  by (simp add: text_ordered_def)

section \<open>Properties of the conversation store\<close>

lemma save_files_path:
  "files (save J st c) (conversation_path (conv_id c)) = Some (dump_json J c)"
  by (simp add: save_def Let_def rename_def write_text_def)

lemma get_after_save:
  assumes "validate_json J (dump_json J c) = Some c"
  shows "get J (save J st c) (conv_id c) = Inr (Some c)"
  using assms by (simp add: get_def save_files_path)

text \<open>
  C1. A conversation that the serialiser reads back unchanged is returned by \<open>get\<close>
  after \<open>save\<close>, equal in every field, the messages and their tool-call records included.
\<close>

theorem save_get_roundtrip:
  assumes "validate_json J (dump_json J c) = Some c"
  shows "get J (save J st c) (conv_id c) = Inr (Some c)"
  using assms by (rule get_after_save)

theorem save_get_roundtrip_witness:
  "validate_json id_codec (dump_json id_codec conv1) = Some conv1
   \<and> get id_codec (save id_codec empty_store conv1) (conv_id conv1) = Inr (Some conv1)"
  using save_get_roundtrip [of id_codec conv1 empty_store]
  by (simp add: id_codec_def)

lemma delete_index: "index (snd (delete st i)) = filter (\<lambda>r. row_id r \<noteq> i) (index st)"
  by (simp add: delete_def Let_def)

lemma delete_files: "files (snd (delete st i)) (conversation_path i) = None"
  by (cases "files st (conversation_path i)") (simp_all add: delete_def Let_def)

text \<open>
  C5. \<open>delete\<close> returns whether the shard file existed; afterwards the file is absent,
  \<open>get\<close> finds nothing, the table holds exactly the former rows of the other ids, and
  \<open>get_stats\<close> is computed from those rows alone.
\<close>

theorem delete_complete:
  "fst (delete st i) = (files st (conversation_path i) \<noteq> None)
   \<and> files (snd (delete st i)) (conversation_path i) = None
   \<and> index (snd (delete st i)) = filter (\<lambda>r. row_id r \<noteq> i) (index st)
   \<and> i \<notin> row_id ` set (index (snd (delete st i)))
   \<and> get J (snd (delete st i)) i = Inr None
   \<and> get_stats (snd (delete st i))
       = get_stats (st\<lparr>index := filter (\<lambda>r. row_id r \<noteq> i) (index st)\<rparr>)"
proof -
  have "fst (delete st i) = (files st (conversation_path i) \<noteq> None)"
    by (simp add: delete_def Let_def)
  moreover have "i \<notin> row_id ` set (index (snd (delete st i)))"
    by (auto simp: delete_index)
  moreover have "get J (snd (delete st i)) i = Inr None"
    by (simp add: get_def delete_files)
  moreover have "get_stats (snd (delete st i))
       = get_stats (st\<lparr>index := filter (\<lambda>r. row_id r \<noteq> i) (index st)\<rparr>)"
    by (simp add: get_stats_def delete_index)
  ultimately show ?thesis
    using delete_index [of st i] delete_files [of st i] by blast
qed

lemma sample_file:
  "files (save id_codec empty_store conv1) (conversation_path ''c1'') = Some conv1"
  using save_files_path [of id_codec empty_store conv1] by (simp add: conv1_def id_codec_def)

theorem delete_complete_witness:
  "fst (delete (save id_codec empty_store conv1) ''c1'')
   \<and> get id_codec (snd (delete (save id_codec empty_store conv1) ''c1'')) ''c1'' = Inr None
   \<and> ''c1'' \<notin> row_id ` set (index (snd (delete (save id_codec empty_store conv1) ''c1'')))"
  using delete_complete [of "save id_codec empty_store conv1" "''c1''" id_codec] sample_file
  by auto

lemma map_mark_absent:
  "i \<notin> row_id ` set rows \<Longrightarrow> map (\<lambda>r. if row_id r = i then f r else r) rows = rows"
  by (induction rows) auto

lemma filter_mark_other:
  "[r \<leftarrow> map (\<lambda>r. if row_id r = i then r\<lparr>row_indexed_at := v\<rparr> else r) rows. row_id r \<noteq> i]
     = [r \<leftarrow> rows. row_id r \<noteq> i]"
  by (induction rows) auto

lemma row_of_indexed:
  "row_of (c\<lparr>indexed_at := Some d\<rparr>) = (row_of c)\<lparr>row_indexed_at := Some (isoformat d)\<rparr>"
  by (simp add: row_of_def)

lemma save_index_same:
  "[r \<leftarrow> index (save J st c). row_id r = conv_id c] = [row_of c]"
  by (simp add: save_def Let_def insert_or_replace_def row_of_def filter_empty_conv)

lemma save_index_other:
  "[r \<leftarrow> index (save J st c). row_id r \<noteq> conv_id c] = [r \<leftarrow> index st. row_id r \<noteq> conv_id c]"
  by (simp add: save_def Let_def insert_or_replace_def row_of_def)

text \<open>
  C8, amended. When the file of \<open>i\<close> holds the conversation \<open>c\<close> with that id,
  \<open>mark_indexed\<close> leaves the file holding \<open>c\<close> with only \<open>indexed_at\<close> changed, to the
  given timestamp or else to the clock's time, and the table holding for \<open>i\<close> the one
  row of \<open>c\<close> with that \<open>indexed_at\<close>; the rows of other ids are untouched. When \<open>i\<close>
  has neither file nor row, the call returns the state as it was. When \<open>i\<close> has no
  file, the files stay as they are and \<open>indexed_at\<close> is set in the rows of \<open>i\<close>.
\<close>

theorem mark_indexed_frame:
  "(get J st i = Inr (Some c) \<and> conv_id c = i
      \<and> now = (case t of Some d \<Rightarrow> d | None \<Rightarrow> utcnow)
      \<and> validate_json J (dump_json J (c\<lparr>indexed_at := Some now\<rparr>)) = Some (c\<lparr>indexed_at := Some now\<rparr>)
    \<longrightarrow> (\<exists>st'. mark_indexed J st utcnow i t = Inr st'
          \<and> get J st' i = Inr (Some (c\<lparr>indexed_at := Some now\<rparr>))
          \<and> [r \<leftarrow> index st'. row_id r = i] = [(row_of c)\<lparr>row_indexed_at := Some (isoformat now)\<rparr>]
          \<and> [r \<leftarrow> index st'. row_id r \<noteq> i] = [r \<leftarrow> index st. row_id r \<noteq> i]))
   \<and> (files st (conversation_path i) = None \<and> i \<notin> row_id ` set (index st)
    \<longrightarrow> mark_indexed J st utcnow i t = Inr st)
   \<and> (files st (conversation_path i) = None
      \<and> now = (case t of Some d \<Rightarrow> d | None \<Rightarrow> utcnow)
    \<longrightarrow> mark_indexed J st utcnow i t
          = Inr (st\<lparr>index := map (\<lambda>r. if row_id r = i
                                        then r\<lparr>row_indexed_at := Some (isoformat now)\<rparr>
                                        else r) (index st)\<rparr>))"
proof (intro conjI impI)
  assume a: "get J st i = Inr (Some c) \<and> conv_id c = i
      \<and> now = (case t of Some d \<Rightarrow> d | None \<Rightarrow> utcnow)
      \<and> validate_json J (dump_json J (c\<lparr>indexed_at := Some now\<rparr>)) = Some (c\<lparr>indexed_at := Some now\<rparr>)"
  let ?st1 = "st\<lparr>index := map (\<lambda>r. if row_id r = i
                                        then r\<lparr>row_indexed_at := Some (isoformat now)\<rparr>
                                        else r) (index st)\<rparr>"
  let ?c = "c\<lparr>indexed_at := Some now\<rparr>"
  from a have g0: "get J st i = Inr (Some c)" and id0: "conv_id c = i"
    and n0: "now = (case t of Some d \<Rightarrow> d | None \<Rightarrow> utcnow)"
    and v: "validate_json J (dump_json J ?c) = Some ?c"
    by blast+
  note n = n0 [symmetric]
  have g1: "get J ?st1 i = Inr (Some c)" using g0 by (simp add: get_def)
  have m: "mark_indexed J st utcnow i t = Inr (save J ?st1 ?c)"
    using g1 by (simp add: mark_indexed_def Let_def n)
  have id: "conv_id ?c = i" using id0 by simp
  have g2: "get J (save J ?st1 ?c) i = Inr (Some ?c)"
    using get_after_save [of J ?c ?st1] v id by simp
  have s1: "[r \<leftarrow> index (save J ?st1 ?c). row_id r = i] = [(row_of c)\<lparr>row_indexed_at := Some (isoformat now)\<rparr>]"
    using save_index_same [where J=J and st="?st1" and c="?c"] id by (simp add: row_of_indexed)
  have s2: "[r \<leftarrow> index (save J ?st1 ?c). row_id r \<noteq> i] = [r \<leftarrow> index st. row_id r \<noteq> i]"
    using save_index_other [where J=J and st="?st1" and c="?c"] id by (simp add: filter_mark_other)
  show "\<exists>st'. mark_indexed J st utcnow i t = Inr st'
          \<and> get J st' i = Inr (Some (c\<lparr>indexed_at := Some now\<rparr>))
          \<and> [r \<leftarrow> index st'. row_id r = i] = [(row_of c)\<lparr>row_indexed_at := Some (isoformat now)\<rparr>]
          \<and> [r \<leftarrow> index st'. row_id r \<noteq> i] = [r \<leftarrow> index st. row_id r \<noteq> i]"
    using m g2 s1 s2 by blast
next
  assume b: "files st (conversation_path i) = None \<and> i \<notin> row_id ` set (index st)"
  then show "mark_indexed J st utcnow i t = Inr st"
    by (simp add: mark_indexed_def Let_def get_def map_mark_absent)
next
  assume "files st (conversation_path i) = None
      \<and> now = (case t of Some d \<Rightarrow> d | None \<Rightarrow> utcnow)"
  then have f: "files st (conversation_path i) = None"
    and n0: "now = (case t of Some d \<Rightarrow> d | None \<Rightarrow> utcnow)"
    by blast+
  note n = n0 [symmetric]
  show "mark_indexed J st utcnow i t
          = Inr (st\<lparr>index := map (\<lambda>r. if row_id r = i
                                        then r\<lparr>row_indexed_at := Some (isoformat now)\<rparr>
                                        else r) (index st)\<rparr>)"
    using f by (simp add: mark_indexed_def Let_def get_def n)
qed

text \<open>
  C8 as stated fails for an id that has a row but no file: \<open>get\<close> finds no
  conversation, yet the call sets \<open>indexed_at\<close> in the row, and \<open>get_stats\<close> counts one
  more indexed conversation.
\<close>

theorem mark_indexed_row_only:
  "get id_codec row_only ''c1'' = Inr None
   \<and> mark_indexed id_codec row_only time1 ''c1'' None
       = Inr (row_only\<lparr>index := [(row_of conv1)\<lparr>row_indexed_at := Some (isoformat time1)\<rparr>]\<rparr>)
   \<and> indexed_conversations (get_stats row_only) = 0
   \<and> indexed_conversations (get_stats
         (row_only\<lparr>index := [(row_of conv1)\<lparr>row_indexed_at := Some (isoformat time1)\<rparr>]\<rparr>)) = 1"
proof -
  have r: "row_id (row_of conv1) = ''c1''" "row_indexed_at (row_of conv1) = None"
    by (simp_all add: row_of_def conv1_def)
  show ?thesis
    by (simp add: mark_indexed_def Let_def get_def row_only_def get_stats_def r)
qed

theorem mark_indexed_frame_witness:
  "get id_codec (save id_codec empty_store conv1) ''c1'' = Inr (Some conv1)
   \<and> (\<exists>st'. mark_indexed id_codec (save id_codec empty_store conv1) time1 ''c1'' None = Inr st'
         \<and> get id_codec st' ''c1'' = Inr (Some (conv1\<lparr>indexed_at := Some time1\<rparr>)))
   \<and> mark_indexed id_codec empty_store time1 ''zz'' None = Inr (empty_store :: conversation store)"
proof -
  have g: "get id_codec (save id_codec empty_store conv1) ''c1'' = Inr (Some conv1)"
    using sample_file by (simp add: get_def id_codec_def)
  have i: "conv_id conv1 = ''c1''" by (simp add: conv1_def)
  have v: "validate_json id_codec (dump_json id_codec (conv1\<lparr>indexed_at := Some time1\<rparr>))
             = Some (conv1\<lparr>indexed_at := Some time1\<rparr>)"
    by (simp add: id_codec_def)
  have e: "files (empty_store :: conversation store) (conversation_path ''zz'') = None
           \<and> ''zz'' \<notin> row_id ` set (index (empty_store :: conversation store))"
    by (simp add: empty_store_def)
  show ?thesis
    using g i v e
      mark_indexed_frame [where J = id_codec and st = "save id_codec empty_store conv1"
        and i = "''c1''" and c = conv1 and now = time1 and t = None and utcnow = time1]
      mark_indexed_frame [where J = id_codec and st = "empty_store :: conversation store"
        and i = "''zz''" and t = None and utcnow = time1]
    by auto
qed

section \<open>Rounding to doubles\<close>

lemma rne_of_int [simp]: "rne (of_int n) = n"
  by (simp add: rne_def)

lemma rne_cases: "rne x = \<lfloor>x\<rfloor> \<or> rne x = \<lfloor>x\<rfloor> + 1"
  by (simp add: rne_def Let_def)

lemma rne_mono: "x \<le> y \<Longrightarrow> rne x \<le> rne y"
proof -
  assume xy: "x \<le> y"
  then have f: "\<lfloor>x\<rfloor> \<le> \<lfloor>y\<rfloor>" by (rule floor_mono)
  show ?thesis
  proof (cases "\<lfloor>x\<rfloor> = \<lfloor>y\<rfloor>")
    case True
    then have "x - of_int \<lfloor>x\<rfloor> \<le> y - of_int \<lfloor>y\<rfloor>" using xy by simp
    then show ?thesis using True by (auto simp: rne_def Let_def)
  next
    case False
    with f have "\<lfloor>x\<rfloor> + 1 \<le> \<lfloor>y\<rfloor>" by simp
    moreover have "rne x \<le> \<lfloor>x\<rfloor> + 1" using rne_cases [of x] by auto
    moreover have "\<lfloor>y\<rfloor> \<le> rne y" using rne_cases [of y] by auto
    ultimately show ?thesis by linarith
  qed
qed

lemma rne_near: "of_int n \<le> x \<Longrightarrow> x < of_int n + 1 / 2 \<Longrightarrow> rne x = n"
proof -
  assume a: "of_int n \<le> x" "x < of_int n + 1 / 2"
  then have "\<lfloor>x\<rfloor> = n" by linarith
  then show ?thesis using a by (simp add: rne_def Let_def)
qed

lemma ulp_pos [simp]: "0 < ulp x"
  by (simp add: ulp_def)

lemma ulp_nonzero [simp]: "ulp x \<noteq> 0"
  by (simp add: ulp_def)

lemma floor_log_bounds:
  assumes "0 < x"
  shows "2 powr of_int \<lfloor>log 2 x\<rfloor> \<le> x" and "x < 2 powr (of_int \<lfloor>log 2 x\<rfloor> + 1)"
proof -
  have "of_int \<lfloor>log 2 x\<rfloor> \<le> log 2 x" by simp
  then have "2 powr of_int \<lfloor>log 2 x\<rfloor> \<le> 2 powr log 2 x" by (simp only: powr_le_cancel_iff) 
  then show "2 powr of_int \<lfloor>log 2 x\<rfloor> \<le> x" using assms by simp
  have "log 2 x < of_int \<lfloor>log 2 x\<rfloor> + 1" by linarith
  then have "2 powr log 2 x < 2 powr (of_int \<lfloor>log 2 x\<rfloor> + 1)" by (simp only: powr_less_cancel_iff) 
  then show "x < 2 powr (of_int \<lfloor>log 2 x\<rfloor> + 1)" using assms by simp
qed

lemma binade_lower: "0 < x \<Longrightarrow> - 1022 < binade x \<Longrightarrow> 2 powr of_int (binade x) \<le> x"
  using floor_log_bounds(1) [of x] by (simp add: binade_def max_def split: if_splits)

lemma binade_upper: "0 < x \<Longrightarrow> x < 2 powr (of_int (binade x) + 1)"
proof -
  assume x: "0 < x"
  have "\<lfloor>log 2 x\<rfloor> \<le> binade x" using x by (simp add: binade_def)
  then have "(of_int \<lfloor>log 2 x\<rfloor> :: real) + 1 \<le> of_int (binade x) + 1" by simp
  then have "2 powr (of_int \<lfloor>log 2 x\<rfloor> + 1) \<le> (2::real) powr (of_int (binade x) + 1)"
    by (simp only: powr_le_cancel_iff) 
  with floor_log_bounds(2) [OF x] show ?thesis by linarith
qed

lemma binade_mono: "0 < x \<Longrightarrow> x \<le> y \<Longrightarrow> binade x \<le> binade y"
proof -
  assume "0 < x" "x \<le> y"
  then have "log 2 x \<le> log 2 y" by simp
  then have "\<lfloor>log 2 x\<rfloor> \<le> \<lfloor>log 2 y\<rfloor>" by (rule floor_mono)
  then show ?thesis using \<open>0 < x\<close> \<open>x \<le> y\<close> by (simp add: binade_def)
qed


lemma p52: "(2::real) powr 52 = of_int (2 ^ 52)"
  using powr_realpow [of "2::real" 52] by simp

lemma p53: "(2::real) powr 53 = of_int (2 ^ 53)"
  using powr_realpow [of "2::real" 53] by simp

lemma ulp_52: "2 powr 52 * ulp x = 2 powr of_int (binade x)"
  unfolding ulp_def powr_add [symmetric] by simp

lemma ulp_53: "2 powr 53 * ulp x = 2 powr (of_int (binade x) + 1)"
  unfolding ulp_def powr_add [symmetric] by (simp add: add.commute)

lemma scaled_upper: "0 < x \<Longrightarrow> x / ulp x < 2 powr 53"
proof -
  assume x: "0 < x"
  have "x < 2 powr 53 * ulp x"
    using binade_upper [OF x] by (simp only: ulp_53)
  then show ?thesis
    using ulp_pos [of x] by (simp only: pos_divide_less_eq)
qed

lemma scaled_lower: "0 < x \<Longrightarrow> - 1022 < binade x \<Longrightarrow> 2 powr 52 \<le> x / ulp x"
proof -
  assume x: "0 < x" and b: "- 1022 < binade x"
  have "2 powr 52 * ulp x \<le> x"
    using binade_lower [OF x b] by (simp only: ulp_52)
  then show ?thesis
    using ulp_pos [of x] by (simp only: pos_le_divide_eq)
qed

lemma round_double_upper: "0 < x \<Longrightarrow> round_double x \<le> 2 powr (of_int (binade x) + 1)"
proof -
  assume x: "0 < x"
  have "x / ulp x \<le> of_int (2 ^ 53)"
    using scaled_upper [OF x] by (simp only: p53)
  then have "rne (x / ulp x) \<le> rne (of_int (2 ^ 53))"
    by (rule rne_mono)
  then have "rne (x / ulp x) \<le> 2 ^ 53" by (simp only: rne_of_int)
  then have "(of_int (rne (x / ulp x)) :: real) \<le> of_int (2 ^ 53)"
    by (simp only: of_int_le_iff)
  then have "of_int (rne (x / ulp x)) * ulp x \<le> of_int (2 ^ 53) * ulp x"
    using ulp_pos [of x] by (simp only: mult_le_cancel_right_pos)
  then show ?thesis
    by (simp only: round_double_def p53 [symmetric] ulp_53)
qed

lemma round_double_lower:
  "0 < x \<Longrightarrow> - 1022 < binade x \<Longrightarrow> 2 powr of_int (binade x) \<le> round_double x"
proof -
  assume x: "0 < x" and b: "- 1022 < binade x"
  have "of_int (2 ^ 52) \<le> x / ulp x"
    using scaled_lower [OF x b] by (simp only: p52)
  then have "rne (of_int (2 ^ 52)) \<le> rne (x / ulp x)"
    by (rule rne_mono)
  then have "2 ^ 52 \<le> rne (x / ulp x)" by (simp only: rne_of_int)
  then have "(of_int (2 ^ 52) :: real) \<le> of_int (rne (x / ulp x))"
    by (simp only: of_int_le_iff)
  then have "of_int (2 ^ 52) * ulp x \<le> of_int (rne (x / ulp x)) * ulp x"
    using ulp_pos [of x] by (simp only: mult_le_cancel_right_pos)
  then show ?thesis
    by (simp only: round_double_def p52 [symmetric] ulp_52)
qed

lemma round_double_mono:
  assumes "0 < x" and "x \<le> y"
  shows "round_double x \<le> round_double y"
proof (cases "binade x = binade y")
  case True
  then have u: "ulp x = ulp y" by (simp add: ulp_def)
  have "x / ulp y \<le> y / ulp y"
    by (rule divide_right_mono [OF assms(2) less_imp_le [OF ulp_pos]])
  then have "rne (x / ulp y) \<le> rne (y / ulp y)" by (rule rne_mono)
  then have "of_int (rne (x / ulp y)) * ulp y \<le> of_int (rne (y / ulp y)) * ulp y"
    using ulp_pos [of y] by (simp only: mult_le_cancel_right_pos of_int_le_iff)
  then show ?thesis by (simp only: round_double_def u)
next
  case False
  have y: "0 < y" using assms by simp
  from False binade_mono [OF assms] have lt: "binade x + 1 \<le> binade y" by simp
  have "- 1022 \<le> binade x" by (simp add: binade_def)
  with lt have b: "- 1022 < binade y" by simp
  have "(of_int (binade x) :: real) + 1 \<le> of_int (binade y)"
    using lt by (metis of_int_1 of_int_add of_int_le_iff)
  then have m: "(2::real) powr (of_int (binade x) + 1) \<le> 2 powr of_int (binade y)"
    by (simp only: powr_le_cancel_iff) 
  have "round_double x \<le> 2 powr (of_int (binade x) + 1)"
    using assms(1) by (rule round_double_upper)
  also note m
  also have "2 powr of_int (binade y) \<le> round_double y"
    using y b by (rule round_double_lower)
  finally show ?thesis .
qed


lemma binade_pow2: "- 1022 \<le> k \<Longrightarrow> binade (2 powr of_int k) = k"
  by (simp add: binade_def)

lemma round_double_pow2:
  assumes "- 1022 \<le> k"
  shows "round_double (2 powr of_int k) = 2 powr of_int k"
proof -
  have u: "2 powr 52 * ulp (2 powr of_int k) = 2 powr of_int k"
    by (simp only: ulp_52 binade_pow2 [OF assms])
  have "(2 powr 52 * ulp (2 powr of_int k)) / ulp (2 powr of_int k) = 2 powr 52"
    by simp
  then have "2 powr of_int k / ulp (2 powr of_int k) = 2 powr 52"
    by (simp only: u)
  then have "rne (2 powr of_int k / ulp (2 powr of_int k)) = 2 ^ 52"
    by (simp only: p52 rne_of_int)
  then have "round_double (2 powr of_int k) = of_int (2 ^ 52) * ulp (2 powr of_int k)"
    by (simp only: round_double_def)
  then show ?thesis by (simp only: p52 [symmetric] u)
qed

lemma round_double_1 [simp]: "round_double 1 = 1"
  using round_double_pow2 [of 0] by simp

lemma round_double_pos:
  assumes "2 powr (- 1074) \<le> x"
  shows "0 < round_double x"
proof -
  have x: "0 < x" using assms by (rule less_le_trans [rotated]) simp
  have "1 \<le> x / ulp x"
  proof (cases "- 1022 < binade x")
    case True
    have "(1::real) \<le> 2 powr 52" by simp
    with scaled_lower [OF x True] show ?thesis by linarith
  next
    case False
    moreover have "- 1022 \<le> binade x" by (simp add: binade_def)
    ultimately have "binade x = - 1022" by simp
    then have "ulp x = 2 powr (- 1074)" by (simp add: ulp_def)
    then show ?thesis using assms by simp
  qed
  then have "rne (of_int 1) \<le> rne (x / ulp x)" by (intro rne_mono) simp
  then have "1 \<le> rne (x / ulp x)" by (simp only: rne_of_int)
  then have "(0::real) < of_int (rne (x / ulp x))" by simp
  then show ?thesis by (simp add: round_double_def)
qed

lemma sum_range:
  assumes "0 \<le> d"
  shows "1 \<le> float_add 1 d"
  using round_double_mono [of 1 "1 + d"] assms by (simp add: float_add_def)

lemma sum_upper:
  assumes "0 \<le> d" and "d \<le> max_double"
  shows "float_add 1 d \<le> 2 powr 1024"
proof -
  have "(2::real) powr 1024 = 2 ^ 1024" using powr_realpow [of "2::real" 1024] by simp
  moreover have "(1::real) \<le> 2 ^ 971" by simp
  ultimately have "1 + d \<le> 2 powr 1024" using assms(2) by (simp add: max_double_def)
  then have "round_double (1 + d) \<le> round_double (2 powr 1024)"
    using assms(1) by (intro round_double_mono) simp_all
  then show ?thesis
    using round_double_pow2 [of 1024] by (simp add: float_add_def)
qed

lemma score_bounds:
  assumes "0 \<le> d" and "d \<le> max_double"
  shows "0 < float_div 1 (float_add 1 d)" and "float_div 1 (float_add 1 d) \<le> 1"
proof -
  let ?s = "float_add 1 d"
  have s1: "1 \<le> ?s" using assms(1) by (rule sum_range)
  have s2: "?s \<le> 2 powr 1024" using assms by (rule sum_upper)
  have "1 / 2 powr 1024 \<le> 1 / ?s"
    using s1 s2 by (intro divide_left_mono) simp_all
  moreover have "(2::real) powr (- 1074) \<le> 1 / 2 powr 1024"
    by (simp add: powr_minus divide_simps)
  ultimately have "2 powr (- 1074) \<le> 1 / ?s" by linarith
  then show "0 < float_div 1 ?s"
    unfolding float_div_def by (rule round_double_pos)
  have "0 < 1 / ?s" "1 / ?s \<le> 1" using s1 by simp_all
  then have "round_double (1 / ?s) \<le> round_double 1" by (rule round_double_mono)
  then show "float_div 1 ?s \<le> 1" by (simp add: float_div_def)
qed

lemma score_antimono:
  assumes "0 \<le> d" and "d \<le> d'"
  shows "float_div 1 (float_add 1 d') \<le> float_div 1 (float_add 1 d)"
proof -
  have a: "1 \<le> float_add 1 d" using assms(1) by (rule sum_range)
  have "float_add 1 d \<le> float_add 1 d'"
    unfolding float_add_def using assms by (intro round_double_mono) simp_all
  with a have "0 < 1 / float_add 1 d'" "1 / float_add 1 d' \<le> 1 / float_add 1 d"
    by (simp_all add: frac_le)
  then show ?thesis unfolding float_div_def by (rule round_double_mono)
qed

lemma binade_unit: "1 \<le> x \<Longrightarrow> x < 2 \<Longrightarrow> binade x = 0"
proof -
  assume a: "1 \<le> x" "x < 2"
  then have "0 \<le> log 2 x" "log 2 x < 1" by simp_all
  then have "\<lfloor>log 2 x\<rfloor> = 0" by linarith
  then show ?thesis using a by (simp add: binade_def)
qed

lemma absorbed:
  assumes "0 \<le> d" and "d < 1 / 2 ^ 53"
  shows "float_add 1 d = 1"
proof -
  have b: "binade (1 + d) = 0"
    using assms by (intro binade_unit) (simp_all, linarith?)
  have u: "ulp (1 + d) = 1 / 2 ^ 52"
    using powr_realpow [of "2::real" 52] by (simp add: ulp_def b powr_minus divide_simps)
  have "rne ((1 + d) / ulp (1 + d)) = 2 ^ 52"
  proof (rule rne_near)
    show "of_int (2 ^ 52) \<le> (1 + d) / ulp (1 + d)" using assms(1) by (simp add: u)
    have "d * 2 ^ 52 < 1 / 2" using assms(2) by (simp add: field_simps)
    then show "(1 + d) / ulp (1 + d) < of_int (2 ^ 52) + 1 / 2" by (simp add: u algebra_simps)
  qed
  then show ?thesis by (simp add: float_add_def round_double_def u)
qed

section \<open>Properties of the vector store\<close>

lemma or_none_not_empty: "or_none s \<noteq> Some []"
  by (simp add: or_none_def)

lemma or_none_or_empty: "v = None \<or> v = Some [] \<Longrightarrow> or_none (or_empty v) = None"
  by (auto simp: or_none_def or_empty_def)

lemma document_of_row_fields:
  assumes "document_of_row S row = Inr d"
  shows "doc_id d = col_id row"
    and "md_project_path (metadata d) = or_none (col_project_path row)"
    and "conversation_id (metadata d) = or_none (col_conversation_id row)"
  using assms by (auto simp: document_of_row_def split: option.splits if_splits)

lemma search_result_of_fields:
  assumes "search_result_of S hit = Inr r"
  shows "document_of_row S (fst hit) = Inr (document r)"
    and "distance r = (case snd hit of None \<Rightarrow> 0 | Some d \<Rightarrow> d)"
    and "score r = float_div 1 (float_add 1 (distance r))"
  using assms by (auto simp: search_result_of_def Let_def split: sum.splits if_splits)

lemma search_results_list_all2:
  "search_results S hits = Inr rs \<Longrightarrow> list_all2 (\<lambda>hit r. search_result_of S hit = Inr r) hits rs"
proof (induction hits arbitrary: rs)
  case Nil
  then show ?case by simp
next
  case (Cons hit hits)
  then show ?case by (auto split: sum.splits)
qed

lemma search_results_mem:
  "search_results S hits = Inr rs \<Longrightarrow> r \<in> set rs \<Longrightarrow>
     \<exists>hit \<in> set hits. search_result_of S hit = Inr r"
proof (induction hits arbitrary: rs)
  case Nil
  then show ?case by simp
next
  case (Cons hit hits)
  then show ?case by (auto split: sum.splits)
qed

lemma search_unfold:
  assumes "search E S vs q l f = Inr rs"
  obtains p where
    "(case f of None \<Rightarrow> Some (\<lambda>r. True) | Some s \<Rightarrow> if s \<noteq> [] then sql_where E s else Some (\<lambda>r. True)) = Some p"
    and "search_results S (vector_query E (table vs) q l p) = Inr rs"
  using assms unfolding search_def by (auto split: option.splits)

lemma vector_query_rows:
  "hit \<in> set (vector_query E rows q l p) \<Longrightarrow>
     fst hit \<in> set rows \<and> p (fst hit) \<and> snd hit = Some (metric E q (col_vector (fst hit)))"
  by (auto simp: vector_query_def dest: in_set_takeD)

lemma search_hits:
  assumes "search E S vs q l f = Inr rs" and "r \<in> set rs"
  shows "\<exists>row \<in> set (table vs). document_of_row S row = Inr (document r)
           \<and> distance r = metric E q (col_vector row)
           \<and> score r = float_div 1 (float_add 1 (distance r))"
proof -
  from assms(1) obtain p where
    sr: "search_results S (vector_query E (table vs) q l p) = Inr rs"
    by (rule search_unfold)
  from search_results_mem [OF sr assms(2)]
  obtain hit where h: "hit \<in> set (vector_query E (table vs) q l p)"
    and r: "search_result_of S hit = Inr r"
    by blast
  from vector_query_rows [OF h] search_result_of_fields [OF r]
  show ?thesis by (intro bexI [of _ "fst hit"]) auto
qed

text \<open>
  C4, amended. Every result of \<open>search\<close> has as score \<open>1.0 / (1.0 + distance)\<close> in
  double arithmetic: the sum rounded, then the quotient rounded. Hence a result at a
  finite distance of at least 0 has its score in (0, 1], and of two results the one at the
  smaller such distance has a score at least as great.
\<close>

theorem search_score_rounded:
  assumes "search E S vs q l f = Inr rs" and "r \<in> set rs"
  shows "score r = float_div 1 (float_add 1 (distance r))
     \<and> (0 \<le> distance r \<and> distance r \<le> max_double \<longrightarrow> 0 < score r \<and> score r \<le> 1)
     \<and> (\<forall>r' \<in> set rs. 0 \<le> distance r \<and> distance r \<le> distance r' \<longrightarrow> score r' \<le> score r)"
proof -
  have s: "\<And>x. x \<in> set rs \<Longrightarrow> score x = float_div 1 (float_add 1 (distance x))"
    using search_hits [OF assms(1)] by blast
  have "0 \<le> distance r \<Longrightarrow> distance r \<le> max_double \<Longrightarrow> 0 < score r \<and> score r \<le> 1"
    using s [OF assms(2)] score_bounds [of "distance r"] by simp
  moreover have "\<And>r'. r' \<in> set rs \<Longrightarrow> 0 \<le> distance r \<Longrightarrow> distance r \<le> distance r'
      \<Longrightarrow> score r' \<le> score r"
    using s assms(2) score_antimono by simp
  ultimately show ?thesis using s [OF assms(2)] by blast
qed

lemma list_all2_distance:
  "list_all2 (\<lambda>row r. distance r = k row) chosen rs \<Longrightarrow> map distance rs = map k chosen"
  by (induction chosen rs rule: list_all2_induct) auto

text \<open>
  C3. \<open>search\<close> returns at most \<open>limit\<close> results, in ascending distance. They are
  read from rows \<open>chosen\<close> among the rows that satisfy the filter (all rows when no
  filter is given or the string is empty), every row left out is at least as far from the
  query as every chosen one, and rows are left out only when the limit is reached: the
  filter is applied before the ranking.
\<close>

theorem search_nearest:
  assumes "search E S vs q limit f = Inr rs"
    and "f = Some s \<and> s \<noteq> [] \<and> sql_where E s = Some p
         \<or> (f = None \<or> f = Some []) \<and> p = (\<lambda>r. True)"
  shows "length rs \<le> nat limit
     \<and> sorted (map distance rs)
     \<and> (\<exists>chosen rest.
           mset chosen + mset rest = mset (filter p (table vs))
           \<and> list_all2 (\<lambda>row r. document_of_row S row = Inr (document r)
                             \<and> distance r = metric E q (col_vector row)) chosen rs
           \<and> (\<forall>x \<in> set chosen. \<forall>y \<in> set rest.
                 metric E q (col_vector x) \<le> metric E q (col_vector y))
           \<and> (rest \<noteq> [] \<longrightarrow> length rs = nat limit))"
proof -
  define k where "k = (\<lambda>r::table_row. metric E q (col_vector r))"
  define ranked where "ranked = sort_key k (filter p (table vs))"
  define chosen where "chosen = take (nat limit) ranked"
  define rest where "rest = drop (nat limit) ranked"
  have w: "(case f of None \<Rightarrow> Some (\<lambda>r. True)
            | Some s \<Rightarrow> if s \<noteq> [] then sql_where E s else Some (\<lambda>r. True)) = Some p"
    using assms(2) by auto
  have sr: "search_results S (map (\<lambda>r. (r, Some (k r))) chosen) = Inr rs"
    using assms(1) w
    by (simp add: search_def vector_query_def chosen_def ranked_def k_def)
  have l2: "list_all2 (\<lambda>row r. search_result_of S (row, Some (k row)) = Inr r) chosen rs"
    using search_results_list_all2 [OF sr] by (simp add: list_all2_map1)
  have l3: "list_all2 (\<lambda>row r. document_of_row S row = Inr (document r)
                             \<and> distance r = k row) chosen rs"
    using l2
    by (rule list_all2_mono) (auto dest: search_result_of_fields)
  have len: "length rs = length chosen"
    using l3 by (simp add: list_all2_lengthD)
  have d: "map distance rs = map k chosen"
    using l3 by (intro list_all2_distance) (auto elim: list_all2_mono)
  have srt: "sorted (map k ranked)"
    by (simp add: ranked_def)
  have app: "ranked = chosen @ rest"
    by (simp add: chosen_def rest_def)
  have s1: "sorted (map k chosen)"
    using srt by (simp add: app sorted_append)
  have s2: "\<forall>x \<in> set chosen. \<forall>y \<in> set rest. k x \<le> k y"
    using srt by (auto simp: app sorted_append)
  have m: "mset chosen + mset rest = mset (filter p (table vs))"
    using app by (metis mset_append mset_sort ranked_def)
  have full: "rest \<noteq> [] \<longrightarrow> length rs = nat limit"
    by (auto simp: len chosen_def rest_def)
  have "length rs \<le> nat limit"
    by (simp add: len chosen_def)
  moreover have "sorted (map distance rs)"
    using s1 d by simp
  ultimately show ?thesis
    using m l3 s2 full unfolding k_def by blast
qed

lemma sql_string_body_plain:
  "quote \<notin> set lit \<Longrightarrow> sql_string_body (lit @ [quote]) = Some lit"
proof (induction lit)
  case Nil
  then show ?case by simp
next
  case (Cons c cs)
  then show ?case by (cases cs) auto
qed

lemma reject_id: "sql_equals (id_filter ''a'b'') = None"
  by (simp add: sql_equals_def id_filter_def quote_def string_column_def)

lemma reject_conversation: "sql_equals (conversation_filter ''a'b'') = None"
  by (simp add: sql_equals_def conversation_filter_def quote_def string_column_def)

lemma accept_id:
  "quote \<notin> set i \<Longrightarrow> sql_equals (id_filter i) = Some (\<lambda>r. col_id r = i)"
  by (simp add: sql_equals_def id_filter_def string_column_def sql_string_body_plain)

lemma accept_conversation:
  "quote \<notin> set c \<Longrightarrow>
     sql_equals (conversation_filter c) = Some (\<lambda>r. col_conversation_id r = c)"
  by (simp add: sql_equals_def conversation_filter_def string_column_def sql_string_body_plain)


lemma upsert_same_id: "x \<in> set (upsert r rows) \<Longrightarrow> col_id x = col_id r \<Longrightarrow> x = r"
  by (auto simp: upsert_def split: if_splits)

lemma add_table:
  "add S vs doc emb = Inr vs' \<Longrightarrow> table vs' = upsert (row_of_document S doc emb) (table vs)"
  by (auto simp: add_def Let_def merge_insert_def split: if_splits)

lemma add_row:
  assumes "add S vs doc emb = Inr vs'" and "row \<in> set (table vs')" and "col_id row = doc_id doc"
  shows "row = row_of_document S doc emb"
proof -
  have "col_id (row_of_document S doc emb) = doc_id doc"
    by (simp add: row_of_document_def)
  then show ?thesis
    using assms add_table [OF assms(1)] upsert_same_id by metis
qed

lemma vector_get_row:
  assumes "vector_get E S vs i = Inr (Some d)"
  shows "\<exists>row \<in> set (table vs). document_of_row S row = Inr d"
proof -
  from assms obtain p row rows where
    sc: "scan (table vs) p (Some 1) = row # rows" and d: "document_of_row S row = Inr d"
    by (auto simp: vector_get_def split: option.splits list.splits sum.splits)
  have "row \<in> set (scan (table vs) p (Some 1))" using sc by simp
  then have "row \<in> set (table vs)" by (auto simp: scan_def dest: in_set_takeD)
  with d show ?thesis by blast
qed

lemma read_back:
  assumes "document_of_row S (row_of_document S0 doc emb) = Inr d"
  shows "md_project_path (metadata d) = or_none (or_empty (md_project_path (metadata doc)))"
    and "conversation_id (metadata d) = or_none (or_empty (conversation_id (metadata doc)))"
  using document_of_row_fields [OF assms] by (simp_all add: row_of_document_def)

text \<open>
  C10. No document returned by \<open>vector_get\<close> or \<open>search\<close> has the empty string as
  \<open>project_path\<close> or \<open>conversation_id\<close>. \<open>add\<close> stores the empty string in a column
  whose field is \<open>None\<close> or empty, and a document read back with the id of the added one
  has \<open>None\<close> in that field.
\<close>

theorem empty_string_reads_none:
  "(vector_get E S vs i = Inr (Some d) \<longrightarrow>
      md_project_path (metadata d) \<noteq> Some [] \<and> conversation_id (metadata d) \<noteq> Some [])
   \<and> (search E S vs q l f = Inr rs \<longrightarrow>
        (\<forall>r \<in> set rs. md_project_path (metadata (document r)) \<noteq> Some []
                    \<and> conversation_id (metadata (document r)) \<noteq> Some []))
   \<and> (add S vs doc emb = Inr vs' \<longrightarrow>
        (\<forall>row \<in> set (table vs'). col_id row = doc_id doc \<longrightarrow>
           (md_project_path (metadata doc) \<in> {None, Some []} \<longrightarrow> col_project_path row = [])
           \<and> (conversation_id (metadata doc) \<in> {None, Some []} \<longrightarrow> col_conversation_id row = [])))
   \<and> (add S vs doc emb = Inr vs' \<and> vector_get E S vs' j = Inr (Some d') \<and> doc_id d' = doc_id doc \<longrightarrow>
        (md_project_path (metadata doc) \<in> {None, Some []} \<longrightarrow> md_project_path (metadata d') = None)
        \<and> (conversation_id (metadata doc) \<in> {None, Some []} \<longrightarrow> conversation_id (metadata d') = None))
   \<and> (add S vs doc emb = Inr vs' \<and> search E S vs' q' l' f' = Inr rs' \<longrightarrow>
        (\<forall>r \<in> set rs'. doc_id (document r) = doc_id doc \<longrightarrow>
           (md_project_path (metadata doc) \<in> {None, Some []}
              \<longrightarrow> md_project_path (metadata (document r)) = None)
           \<and> (conversation_id (metadata doc) \<in> {None, Some []}
              \<longrightarrow> conversation_id (metadata (document r)) = None)))"
proof (intro conjI impI ballI)
  assume "vector_get E S vs i = Inr (Some d)"
  then obtain row where "document_of_row S row = Inr d"
    using vector_get_row by blast
  then show "md_project_path (metadata d) \<noteq> Some []" "conversation_id (metadata d) \<noteq> Some []"
    by (simp_all add: document_of_row_fields or_none_not_empty)
next
  fix r assume "search E S vs q l f = Inr rs" "r \<in> set rs"
  then obtain row where "document_of_row S row = Inr (document r)"
    using search_hits by blast
  then show "md_project_path (metadata (document r)) \<noteq> Some []"
    "conversation_id (metadata (document r)) \<noteq> Some []"
    by (simp_all add: document_of_row_fields or_none_not_empty)
next
  fix row
  assume a: "add S vs doc emb = Inr vs'" "row \<in> set (table vs')" "col_id row = doc_id doc"
  have r: "row = row_of_document S doc emb" using add_row [OF a] .
  show "col_project_path row = []" if "md_project_path (metadata doc) \<in> {None, Some []}"
    using that by (auto simp: r row_of_document_def or_empty_def)
  show "col_conversation_id row = []" if "conversation_id (metadata doc) \<in> {None, Some []}"
    using that by (auto simp: r row_of_document_def or_empty_def)
next
  assume a: "add S vs doc emb = Inr vs' \<and> vector_get E S vs' j = Inr (Some d') \<and> doc_id d' = doc_id doc"
  then obtain row where m: "row \<in> set (table vs')" and d: "document_of_row S row = Inr d'"
    using vector_get_row by blast
  have "col_id row = doc_id doc" using a document_of_row_fields(1) [OF d] by simp
  then have r: "row = row_of_document S doc emb" using add_row a m by blast
  show "md_project_path (metadata d') = None" if "md_project_path (metadata doc) \<in> {None, Some []}"
    using that read_back(1) [OF d [unfolded r]] by (auto simp: or_none_or_empty)
  show "conversation_id (metadata d') = None" if "conversation_id (metadata doc) \<in> {None, Some []}"
    using that read_back(2) [OF d [unfolded r]] by (auto simp: or_none_or_empty)
next
  fix r
  assume a: "add S vs doc emb = Inr vs' \<and> search E S vs' q' l' f' = Inr rs'"
    and rs: "r \<in> set rs'" and i: "doc_id (document r) = doc_id doc"
  then obtain row where m: "row \<in> set (table vs')" and d: "document_of_row S row = Inr (document r)"
    using search_hits by blast
  have "col_id row = doc_id doc" using i document_of_row_fields(1) [OF d] by simp
  then have r: "row = row_of_document S doc emb" using add_row a m by blast
  show "md_project_path (metadata (document r)) = None"
    if "md_project_path (metadata doc) \<in> {None, Some []}"
    using that read_back(1) [OF d [unfolded r]] by (auto simp: or_none_or_empty)
  show "conversation_id (metadata (document r)) = None"
    if "conversation_id (metadata doc) \<in> {None, Some []}"
    using that read_back(2) [OF d [unfolded r]] by (auto simp: or_none_or_empty)
qed

lemma sql_equals_plain:
  assumes "string_column n = Some col" and "CHR '' '' \<notin> set n" and "quote \<notin> set lit"
  shows "sql_equals (n @ '' = '' @ [quote] @ lit @ [quote]) = Some (\<lambda>r. col r = lit)"
proof -
  have t: "takeWhile (\<lambda>c. c \<noteq> CHR '' '') (n @ '' = '' @ [quote] @ lit @ [quote]) = n"
    using assms(2) by (induction n) auto
  have d: "dropWhile (\<lambda>c. c \<noteq> CHR '' '') (n @ '' = '' @ [quote] @ lit @ [quote])
             = '' = '' @ [quote] @ lit @ [quote]"
    using assms(2) by (induction n) auto
  show ?thesis
    unfolding sql_equals_def Let_def t d using assms(1,3)
    by (simp add: sql_string_body_plain)
qed

lemma add0: "add sample_serde vectors0 doc0 [0, 0] = Inr vectors1"
  by (simp add: add_def vectors0_def vectors1_def fits_schema_def merge_insert_def upsert_def
      row_of_document_def doc0_def)

lemma add1: "add sample_serde vectors1 doc1 [3, 4] = Inr vectors2"
  by (simp add: add_def vectors2_def vectors1_def fits_schema_def merge_insert_def upsert_def
      row_of_document_def doc0_def doc1_def)

lemma source_accept: "sql_where sql_engine source_filter = Some (\<lambda>r. col_source r = ''test'')"
  using sql_equals_plain [of "''source''" col_source "''test''"]
  by (simp add: sql_engine_def source_filter_def string_column_def quote_def)

lemma read_row0: "document_of_row sample_serde (row_of_document sample_serde doc0 [0, 0]) = Inr read0"
  by (simp add: document_of_row_def row_of_document_def sample_serde_def doc0_def read0_def
      or_none_def or_empty_def)

lemma search_filtered:
  "search sql_engine sample_serde vectors2 [0, 0] 1 (Some source_filter)
     = Inr [\<lparr>document = read0, score = 1, distance = 0\<rparr>]"
proof -
  have n: "source_filter \<noteq> []" by (simp add: source_filter_def)
  have q: "vector_query sql_engine (table vectors2) [0, 0] 1 (\<lambda>r. col_source r = ''test'')
             = [(row_of_document sample_serde doc0 [0, 0], Some 0)]"
    by (simp add: vector_query_def vectors2_def row_of_document_def doc0_def doc1_def
        sql_engine_def l2_def)
  show ?thesis
    by (simp add: search_def n source_accept q search_result_of_def read_row0
        float_add_def float_div_def Let_def)
qed

lemma read_row0_any:
  "document_of_row sample_serde (row_of_document sample_serde doc0 v) = Inr read0"
  by (simp add: document_of_row_def row_of_document_def sample_serde_def doc0_def read0_def
      or_none_def or_empty_def)

lemma read_row1_any:
  "document_of_row sample_serde (row_of_document sample_serde doc1 v) = Inr doc1"
  by (simp add: document_of_row_def row_of_document_def sample_serde_def doc1_def
      or_none_def or_empty_def)

lemma search_tiny:
  "search sql_engine sample_serde tiny_vectors [0, 0] 5 None
     = Inr [\<lparr>document = read0, score = 1, distance = 1 / 2 ^ 60\<rparr>,
            \<lparr>document = doc1, score = 1, distance = 1 / 2 ^ 58\<rparr>]"
proof -
  have q: "vector_query sql_engine (table tiny_vectors) [0, 0] 5 (\<lambda>r. True)
             = [(row_of_document sample_serde doc0 [1 / 2 ^ 30, 0], Some (1 / 2 ^ 60)),
                (row_of_document sample_serde doc1 [1 / 2 ^ 29, 0], Some (1 / 2 ^ 58))]"
    by (simp add: vector_query_def tiny_vectors_def row_of_document_def doc0_def doc1_def
        sql_engine_def l2_def power2_eq_square)
  have a: "float_add 1 (1 / 2 ^ 60) = 1" "float_add 1 (1 / 2 ^ 58) = 1"
    by (rule absorbed; simp)+
  have d: "float_div 1 1 = 1" by (simp add: float_div_def)
  show ?thesis
    by (simp add: search_def q search_result_of_def read_row0_any read_row1_any
        a [simplified] d Let_def)
qed

text \<open>
  C4 as stated fails: two results at the distances \<open>2^-60 < 2^-58\<close> have the same
  score, 1.0, because \<open>1.0 + distance\<close> rounds to 1.0 for both.
\<close>

theorem search_score_not_strict:
  "search sql_engine sample_serde tiny_vectors [0, 0] 5 None
     = Inr [\<lparr>document = read0, score = 1, distance = 1 / 2 ^ 60\<rparr>,
            \<lparr>document = doc1, score = 1, distance = 1 / 2 ^ 58\<rparr>]
   \<and> (0::real) \<le> 1 / 2 ^ 60 \<and> (1::real) / 2 ^ 60 < 1 / 2 ^ 58
   \<and> \<not> score \<lparr>document = doc1, score = 1, distance = 1 / 2 ^ 58\<rparr>
         < score \<lparr>document = read0, score = 1, distance = 1 / 2 ^ 60\<rparr>"
  using search_tiny by simp

theorem search_score_rounded_witness:
  "search sql_engine sample_serde tiny_vectors [0, 0] 5 None
     = Inr [\<lparr>document = read0, score = 1, distance = 1 / 2 ^ 60\<rparr>,
            \<lparr>document = doc1, score = 1, distance = 1 / 2 ^ 58\<rparr>]
   \<and> (0::real) \<le> 1 / 2 ^ 60 \<and> (1::real) / 2 ^ 60 \<le> max_double
   \<and> float_div 1 (float_add 1 (1 / 2 ^ 60)) \<le> 1"
proof -
  have m: "(1::real) / 2 ^ 60 \<le> max_double"
    by (simp add: max_double_def)
  show ?thesis
    using search_tiny m
      search_score_rounded [OF search_tiny,
        of "\<lparr>document = read0, score = 1, distance = 1 / 2 ^ 60\<rparr>"]
    by simp
qed

theorem search_nearest_witness:
  "search sql_engine sample_serde vectors2 [0, 0] 1 (Some source_filter)
     = Inr [\<lparr>document = read0, score = 1, distance = 0\<rparr>]
   \<and> source_filter \<noteq> []
   \<and> sql_where sql_engine source_filter = Some (\<lambda>r. col_source r = ''test'')
   \<and> length [\<lparr>document = read0, score = 1, distance = 0::real\<rparr>] \<le> nat 1"
proof -
  have n: "source_filter \<noteq> []" by (simp add: source_filter_def)
  show ?thesis
    using search_filtered n source_accept
      search_nearest [OF search_filtered, of source_filter "\<lambda>r. col_source r = ''test''"]
    by simp
qed

lemma get0: "vector_get sql_engine sample_serde vectors1 ''d0'' = Inr (Some read0)"
proof -
  have "sql_where sql_engine (id_filter ''d0'') = Some (\<lambda>r. col_id r = ''d0'')"
    using accept_id [of "''d0''"] by (simp add: sql_engine_def quote_def)
  then show ?thesis
    by (simp add: vector_get_def scan_def vectors1_def read_row0)
       (simp add: row_of_document_def doc0_def)
qed

theorem empty_string_reads_none_witness:
  "add sample_serde vectors0 doc0 [0, 0] = Inr vectors1
   \<and> vector_get sql_engine sample_serde vectors1 ''d0'' = Inr (Some read0)
   \<and> doc_id read0 = doc_id doc0
   \<and> md_project_path (metadata doc0) = Some []
   \<and> md_project_path (metadata read0) = None"
  using add0 get0
    empty_string_reads_none [where S = sample_serde and vs = vectors0 and doc = doc0
      and emb = "[0, 0]" and vs' = vectors1 and E = sql_engine and j = "''d0''" and d' = read0]
  by (simp add: read0_def doc0_def)

text \<open>
  C9. With the filter read as SQL, \<open>vector_delete\<close> of the id \<open>a'b\<close> does not return
  \<open>True\<close>: the quote of the id ends the literal early and the engine rejects the filter.
\<close>

theorem vector_delete_quote:
  "vector_delete sql_engine vectors2 ''a'b'' = Inl FilterError"
  by (simp add: vector_delete_def sql_engine_def reject_id)

text \<open>
  C2. A document of the conversation \<open>a'b\<close> is stored, and \<open>delete_by_conversation\<close> of
  that conversation removes nothing and returns no count: the engine rejects the filter.
\<close>

theorem delete_by_conversation_quote:
  "add sample_serde vectors1 doc1 [3, 4] = Inr vectors2
   \<and> conversation_id (metadata doc1) = Some ''a'b''
   \<and> delete_by_conversation sql_engine vectors2 ''a'b'' = Inl FilterError"
  using add1 by (simp add: delete_by_conversation_def sql_engine_def reject_conversation doc1_def)

lemma delete_by_conversation_exact:
  assumes "sql_where E (conversation_filter c) = Some (\<lambda>r. col_conversation_id r = c)"
    and "scan_limit E = None"
  shows "delete_by_conversation E vs c
           = Inr (length [r \<leftarrow> table vs. col_conversation_id r = c],
                  vs\<lparr>table := [r \<leftarrow> table vs. col_conversation_id r \<noteq> c]\<rparr>)"
  using assms by (simp add: delete_by_conversation_def scan_def table_delete_def)

lemma vector_delete_true:
  "sql_where E (id_filter i) = Some p \<Longrightarrow>
     vector_delete E vs i = Inr (True, vs\<lparr>table := [r \<leftarrow> table vs. \<not> p r]\<rparr>)"
  by (simp add: vector_delete_def table_delete_def)

section \<open>Listing conversations\<close>

lemma row_id_row_of [simp]: "row_id (row_of c) = conv_id c"
  by (simp add: row_of_def)

lemma insort_key_map:
  "insort_key k (f x) (map f xs) = map f (insort_key (\<lambda>a. k (f a)) x xs)"
  by (induction xs) auto

lemma sort_key_map: "sort_key k (map f xs) = map f (sort_key (\<lambda>a. k (f a)) xs)"
  by (induction xs) (auto simp: insort_key_map)

lemma limit_offset_map: "limit_offset l off (map f xs) = map f (limit_offset l off xs)"
  by (simp add: limit_offset_def Let_def take_map drop_map)

lemma set_limit_offset: "set (limit_offset l off xs) \<subseteq> set xs"
  by (auto simp: limit_offset_def Let_def dest: in_set_takeD in_set_dropD)

lemma hydrate_holds:
  assumes "holds J st cs"
  shows "set cs' \<subseteq> set cs \<Longrightarrow> hydrate J st (map conv_id cs') = Inr cs'"
proof (induction cs')
  case Nil
  then show ?case by simp
next
  case (Cons c cs')
  then have "get J st (conv_id c) = Inr (Some c)"
    using assms by (auto simp: holds_def list_all_iff)
  with Cons show ?case by simp
qed

lemma query_holds:
  assumes "holds J st cs"
  shows "hydrate J st (map row_id (limit_offset l off (order_by_desc k (filter P (index st)))))
           = Inr (limit_offset l off (rev (sort_key (k \<circ> row_of) (filter (P \<circ> row_of) cs))))"
proof -
  have i: "index st = map row_of cs" using assms by (simp add: holds_def)
  have "limit_offset l off (order_by_desc k (filter P (index st)))
          = map row_of (limit_offset l off (rev (sort_key (k \<circ> row_of) (filter (P \<circ> row_of) cs))))"
    by (simp add: i order_by_desc_def filter_map sort_key_map rev_map limit_offset_map comp_def)
  moreover have "set (limit_offset l off (rev (sort_key (k \<circ> row_of) (filter (P \<circ> row_of) cs))))
                   \<subseteq> set cs"
    using set_limit_offset by fastforce
  ultimately show ?thesis
    using hydrate_holds [OF assms] by (simp add: comp_def)
qed

lemma dt_le_naive:
  "naive a \<Longrightarrow> naive b \<Longrightarrow> dt_le a b = Inr (naive_key a \<le> naive_key b)"
  by (simp add: dt_le_def naive_def)

lemma ranked_sorted:
  fixes key :: "conversation \<Rightarrow> string"
  shows "sorted_wrt (\<lambda>a b. key b \<le> key a) (rev (sort_key key xs))"
proof -
  have "sorted_wrt (\<lambda>a b. key a \<le> key b) (sort_key key xs)"
    using sorted_sort_key [of key xs] by (simp add: sorted_map)
  then show ?thesis by (simp add: sorted_wrt_rev)
qed

lemma ranked_distinct:
  "distinct (map conv_id xs) \<Longrightarrow> distinct (map conv_id (rev (sort_key key (filter P xs))))"
  by (simp add: distinct_map inj_on_def)


lemma take_drop_ranked:
  assumes "sorted_wrt R S"
  shows "\<forall>x \<in> set (take n S). \<forall>y \<in> set (drop n S). R x y"
proof -
  have "sorted_wrt R (take n S @ drop n S)" using assms by simp
  then show ?thesis unfolding sorted_wrt_append by blast
qed

lemma sorted_wrt_take_drop:
  assumes "sorted_wrt R S"
  shows "sorted_wrt R (take n S)" and "sorted_wrt R (drop n S)"
proof -
  have "sorted_wrt R (take n S @ drop n S)" using assms by simp
  then show "sorted_wrt R (take n S)" and "sorted_wrt R (drop n S)"
    unfolding sorted_wrt_append by blast+
qed

lemma list_all_conversations_holds:
  assumes "holds J st cs" and "- (2 ^ 63) \<le> l" and "l < 2 ^ 63" and "- (2 ^ 63) \<le> off" and "off < 2 ^ 63"
  shows "list_all_conversations J st l off
           = Inr (limit_offset l off (rev (sort_key (\<lambda>c. isoformat (updated_at c)) cs)))"
proof -
  have "row_updated_at \<circ> row_of = (\<lambda>c. isoformat (updated_at c))"
    by (auto simp: row_of_def)
  then show ?thesis
    using query_holds [OF assms(1), of l off row_updated_at "\<lambda>r. True"] assms(2-)
    by (simp add: list_all_conversations_def bind_int_def comp_def)
qed

text \<open>
  Pagination where the \<open>updated_at\<close> values compare as text the way they compare as
  times: for a store that holds \<open>n > 2k\<close> conversations, the pages
  \<open>(limit k, offset 0)\<close> and \<open>(limit k, offset k)\<close> have \<open>k\<close> conversations each, no id
  occurs twice on them, each is in descending order of \<open>updated_at\<close>, and every stored
  conversation on neither page was updated no later than every conversation on them.
\<close>

lemma list_all_pages:
  assumes "holds J st cs" and "2 * k < length cs" and "k < 2 ^ 63"
    and "text_ordered (map updated_at cs)"
  shows "\<exists>p1 p2.
      list_all_conversations J st (int k) 0 = Inr p1
    \<and> list_all_conversations J st (int k) (int k) = Inr p2
    \<and> length p1 = k \<and> length p2 = k
    \<and> distinct (map conv_id (p1 @ p2))
    \<and> set (map conv_id p1) \<inter> set (map conv_id p2) = {}
    \<and> set (p1 @ p2) \<subseteq> set cs
    \<and> sorted_wrt (\<lambda>a b. dt_le (updated_at b) (updated_at a) = Inr True) p1
    \<and> sorted_wrt (\<lambda>a b. dt_le (updated_at b) (updated_at a) = Inr True) p2
    \<and> (\<forall>c \<in> set (p1 @ p2). \<forall>c' \<in> set cs - set (p1 @ p2).
          dt_le (updated_at c') (updated_at c) = Inr True)"
proof -
  define key where "key = (\<lambda>c::conversation. isoformat (updated_at c))"
  define S where "S = rev (sort_key key cs)"
  define R where "R = (\<lambda>(a::conversation) (b::conversation). dt_le (updated_at b) (updated_at a) = Inr True)"
  have kb: "int k < 2 ^ 63" using assms(3) by (simp flip: of_nat_less_iff)
  have l1: "list_all_conversations J st (int k) 0 = Inr (take k S)"
    using list_all_conversations_holds [OF assms(1), of "int k" 0] kb
    by (simp add: S_def key_def limit_offset_def)
  have l2: "list_all_conversations J st (int k) (int k) = Inr (take k (drop k S))"
    using list_all_conversations_holds [OF assms(1), of "int k" "int k"] kb
    by (simp add: S_def key_def limit_offset_def)
  have setS: "set S = set cs" by (simp add: S_def)
  have lenS: "length S = length cs" by (simp add: S_def)
  have keyR: "R a b \<longleftrightarrow> key b \<le> key a" if "a \<in> set cs" "b \<in> set cs" for a b
    using that text_orderedD [OF assms(4), of "updated_at b" "updated_at a"]
    by (simp add: R_def key_def)
  have "sorted_wrt (\<lambda>a b. key b \<le> key a) S"
    unfolding S_def by (rule ranked_sorted)
  then have srt: "sorted_wrt R S"
    by (rule sorted_wrt_mono_rel [rotated]) (simp add: keyR setS)
  have dist: "distinct (map conv_id S)"
    using assms(1) ranked_distinct [of cs key "\<lambda>c. True"] by (simp add: holds_def S_def)
  have app: "take k S @ take k (drop k S) = take (2 * k) S"
    by (simp add: take_add mult_2)
  have d2: "distinct (map conv_id (take k S @ take k (drop k S)))"
    unfolding app using dist by (simp add: take_map [symmetric])
  have disj: "set (map conv_id (take k S)) \<inter> set (map conv_id (take k (drop k S))) = {}"
    using d2 by simp
  have sub: "set (take k S @ take k (drop k S)) \<subseteq> set cs"
    unfolding app using setS by (auto dest: in_set_takeD)
  have s1: "sorted_wrt R (take k S)" using srt by (rule sorted_wrt_take_drop)
  have s2: "sorted_wrt R (take k (drop k S))"
    using srt by (intro sorted_wrt_take_drop)
  have rest: "\<forall>c \<in> set (take k S @ take k (drop k S)).
                \<forall>c' \<in> set cs - set (take k S @ take k (drop k S)). R c c'"
  proof (intro ballI)
    fix c c'
    assume c: "c \<in> set (take k S @ take k (drop k S))"
      and c': "c' \<in> set cs - set (take k S @ take k (drop k S))"
    have "set S = set (take (2 * k) S) \<union> set (drop (2 * k) S)"
      by (metis append_take_drop_id set_append)
    with c' have "c' \<in> set (drop (2 * k) S)" by (auto simp: app setS)
    with c show "R c c'"
      using take_drop_ranked [OF srt, of "2 * k"] by (auto simp: app)
  qed
  have len1: "length (take k S) = k" using assms(2) by (simp add: lenS)
  have len2: "length (take k (drop k S)) = k" using assms(2) by (simp add: lenS)
  show ?thesis
    using l1 l2 len1 len2 d2 disj sub s1 s2 rest unfolding R_def by blast
qed


text \<open>
  C6, amended. For a store that holds the conversations \<open>cs\<close>, with \<open>start\<close>,
  \<open>end\<close> and the \<open>created_at\<close> values comparing as text the way they compare as times
  (as they do when all are naive or all have one UTC offset), and
  \<open>0 \<le> limit < 2^63\<close>: the result has at most \<open>limit\<close> conversations, all stored, with
  \<open>start \<le> created_at \<le> end\<close> and, when a source that is not empty is given, with that
  source; it is in descending order of \<open>created_at\<close>; and a stored conversation with
  these properties is left out only when the limit is reached, and is then created no
  later than each one returned. With no source, or the empty string, the source is not
  looked at.
\<close>

theorem list_by_date_range_exact:
  assumes "holds J st cs" and "0 \<le> limit" and "limit < 2 ^ 63"
    and "text_ordered (start # end' # map created_at cs)"
  shows "\<exists>res.
      list_by_date_range J st start end' src limit = Inr res
    \<and> length res \<le> nat limit
    \<and> distinct (map conv_id res)
    \<and> (\<forall>c \<in> set res. c \<in> set cs
          \<and> dt_le start (created_at c) = Inr True \<and> dt_le (created_at c) end' = Inr True
          \<and> (\<forall>s. src = Some s \<and> s \<noteq> [] \<longrightarrow> source c = s))
    \<and> sorted_wrt (\<lambda>a b. dt_le (created_at b) (created_at a) = Inr True) res
    \<and> (\<forall>c' \<in> set cs - set res.
          dt_le start (created_at c') = Inr True \<and> dt_le (created_at c') end' = Inr True
          \<and> (\<forall>s. src = Some s \<and> s \<noteq> [] \<longrightarrow> source c' = s)
          \<longrightarrow> length res = nat limit
              \<and> (\<forall>c \<in> set res. dt_le (created_at c') (created_at c) = Inr True))"
proof -
  define key where "key = (\<lambda>c::conversation. isoformat (created_at c))"
  define P where "P = (\<lambda>r::index_row. isoformat start \<le> row_created_at r \<and> row_created_at r \<le> isoformat end'
                         \<and> (case src of None \<Rightarrow> True
                             | Some s \<Rightarrow> if s \<noteq> [] then row_source r = s else True))"
  define M where "M = (\<lambda>c::conversation.
      dt_le start (created_at c) = Inr True \<and> dt_le (created_at c) end' = Inr True
      \<and> (\<forall>s. src = Some s \<and> s \<noteq> [] \<longrightarrow> source c = s))"
  define R where "R = (\<lambda>(a::conversation) (b::conversation).
      dt_le (created_at b) (created_at a) = Inr True)"
  define S where "S = rev (sort_key key (filter M cs))"
  define n where "n = nat limit"
  have PM: "P (row_of c) \<longleftrightarrow> M c" if "c \<in> set cs" for c
    using that text_orderedD [OF assms(4), of start "created_at c"]
      text_orderedD [OF assms(4), of "created_at c" end']
    by (auto simp: P_def M_def row_of_def split: option.splits)
  have fl: "filter (P \<circ> row_of) cs = filter M cs"
    by (rule filter_cong) (simp_all add: PM)
  have kk: "row_created_at \<circ> row_of = key"
    by (auto simp: row_of_def key_def)
  have res: "list_by_date_range J st start end' src limit = Inr (take n S)"
    using query_holds [OF assms(1), of limit 0 row_created_at P] assms(2,3)
    by (simp add: list_by_date_range_def bind_int_def P_def [symmetric] fl kk S_def
        limit_offset_def n_def)
  have setS: "set S = {c \<in> set cs. M c}" by (auto simp: S_def)
  have keyR: "R a b \<longleftrightarrow> key b \<le> key a" if "a \<in> set cs" "b \<in> set cs" for a b
    using that text_orderedD [OF assms(4), of "created_at b" "created_at a"]
    by (simp add: R_def key_def)
  have "sorted_wrt (\<lambda>a b. key b \<le> key a) S"
    unfolding S_def by (rule ranked_sorted)
  then have srt: "sorted_wrt R S"
    by (rule sorted_wrt_mono_rel [rotated]) (simp add: keyR setS)
  have dist: "distinct (map conv_id S)"
    using assms(1) ranked_distinct [of cs key M] by (simp add: holds_def S_def)
  have c1: "length (take n S) \<le> nat limit" by (simp add: n_def)
  have c2: "distinct (map conv_id (take n S))"
    using dist by (simp add: take_map [symmetric])
  have c3: "\<forall>c \<in> set (take n S). c \<in> set cs \<and> M c"
    using setS by (auto dest: in_set_takeD)
  have c4: "sorted_wrt R (take n S)" using srt by (rule sorted_wrt_take_drop)
  have c5: "\<forall>c' \<in> set cs - set (take n S).
              M c' \<longrightarrow> length (take n S) = nat limit \<and> (\<forall>c \<in> set (take n S). R c c')"
  proof (intro ballI impI)
    fix c' assume c': "c' \<in> set cs - set (take n S)" and m: "M c'"
    have "set S = set (take n S) \<union> set (drop n S)"
      by (metis append_take_drop_id set_append)
    with c' m setS have d: "c' \<in> set (drop n S)" by auto
    then have "n < length S" by (cases "n < length S") auto
    then have "length (take n S) = nat limit" by (simp add: n_def)
    moreover have "\<forall>c \<in> set (take n S). R c c'"
      using take_drop_ranked [OF srt, of n] d by blast
    ultimately show "length (take n S) = nat limit \<and> (\<forall>c \<in> set (take n S). R c c')" by blast
  qed
  show ?thesis
    using res c1 c2 c3 c4 c5 unfolding M_def R_def by blast
qed


lemma conversation_path_inj: "conversation_path i = conversation_path j \<Longrightarrow> i = j"
  by (simp add: conversation_path_def Let_def)

lemma name_with_suffix_last: "s \<noteq> [] \<Longrightarrow> last (name_with_suffix n s) = last s"
  by (simp add: name_with_suffix_def Let_def)

lemma temp_not_path: "with_suffix (conversation_path j) ''.tmp'' \<noteq> conversation_path i"
proof
  assume "with_suffix (conversation_path j) ''.tmp'' = conversation_path i"
  then have "last (last (with_suffix (conversation_path j) ''.tmp'')) = last (last (conversation_path i))"
    by simp
  then show False
    by (simp add: with_suffix_def conversation_path_def Let_def name_with_suffix_last)
qed

lemma save_files_other:
  "i \<noteq> conv_id c \<Longrightarrow> files (save J st c) (conversation_path i) = files st (conversation_path i)"
  using temp_not_path [of "conv_id c" i] conversation_path_inj [of i "conv_id c"]
  by (auto simp: save_def Let_def rename_def write_text_def)

lemma get_save_other:
  "i \<noteq> conv_id c \<Longrightarrow> get J (save J st c) i = get J st i"
  by (simp add: get_def save_files_other)

lemma holds_empty: "holds J empty_store []"
  by (simp add: holds_def empty_store_def)

lemma holds_save:
  assumes "holds J st cs" and "validate_json J (dump_json J c) = Some c"
  shows "holds J (save J st c) (filter (\<lambda>x. conv_id x \<noteq> conv_id c) cs @ [c])"
proof -
  have i: "index (save J st c) = map row_of (filter (\<lambda>x. conv_id x \<noteq> conv_id c) cs @ [c])"
    using assms(1)
    by (simp add: save_def Let_def insert_or_replace_def holds_def filter_map comp_def)
  have d: "distinct (map conv_id (filter (\<lambda>x. conv_id x \<noteq> conv_id c) cs @ [c]))"
    using assms(1) by (auto simp: holds_def distinct_map_filter)
  have g: "get J (save J st c) (conv_id x) = Inr (Some x)"
    if "x \<in> set (filter (\<lambda>x. conv_id x \<noteq> conv_id c) cs @ [c])" for x
  proof (cases "x = c")
    case True
    then show ?thesis using get_after_save [OF assms(2)] by simp
  next
    case False
    with that have "x \<in> set cs" "conv_id x \<noteq> conv_id c" by auto
    then show ?thesis
      using assms(1) by (simp add: get_save_other holds_def list_all_iff)
  qed
  show ?thesis
    unfolding holds_def using i d g by (simp add: list_all_iff)
qed

lemma id_codec_ok: "validate_json id_codec (dump_json id_codec c) = Some c"
  by (simp add: id_codec_def)

lemma holds_store3: "holds id_codec store3 [conv1, conv2, conv3]"
  using holds_save [OF holds_save [OF holds_save [OF holds_empty id_codec_ok [of conv1]]
      id_codec_ok [of conv2]] id_codec_ok [of conv3]]
  by (simp add: store3_def conv1_def conv2_def conv3_def)

lemma holds_aware: "holds id_codec aware_store [convA, convB, convC]"
  using holds_save [OF holds_save [OF holds_save [OF holds_empty id_codec_ok [of convA]]
      id_codec_ok [of convB]] id_codec_ok [of convC]]
  by (simp add: aware_store_def conv1_def convA_def convB_def convC_def)

lemma iso_hour_less:
  "h < h' \<Longrightarrow> h' < 24 \<Longrightarrow> isoformat (aware h off) < isoformat (aware h' off')"
  by (simp add: isoformat_def aware_def seg_less del: zpad.simps)

lemma aware_keys:
  "isoformat (updated_at convB) < isoformat (updated_at convA)"
  "isoformat (updated_at convC) < isoformat (updated_at convB)"
  "isoformat (updated_at convC) < isoformat (updated_at convA)"
  by (simp_all add: convA_def convB_def convC_def iso_hour_less)

lemma ranked_aware:
  "rev (sort_key (\<lambda>c. isoformat (updated_at c)) [convA, convB, convC]) = [convA, convB, convC]"
  using aware_keys by (simp add: not_le less_imp_le)

lemma aware_order:
  "dt_le (updated_at convA) (updated_at convC) = Inr True
   \<and> dt_le (updated_at convC) (updated_at convA) = Inr False
   \<and> dt_le (updated_at convA) (updated_at convB) = Inr True
   \<and> dt_le (updated_at convB) (updated_at convA) = Inr False"
  by (simp add: dt_le_def convA_def convB_def convC_def aware_def utc_micros_def ordinal_def
      days_before_year_def days_before_month_def is_leap_def)


lemma list_by_date_range_holds:
  assumes "holds J st cs" and "- (2 ^ 63) \<le> limit" and "limit < 2 ^ 63"
  shows "list_by_date_range J st start end' src limit
           = Inr (limit_offset limit 0 (rev (sort_key (\<lambda>c. isoformat (created_at c))
               (filter (\<lambda>c. isoformat start \<le> isoformat (created_at c)
                             \<and> isoformat (created_at c) \<le> isoformat end'
                             \<and> (case src of None \<Rightarrow> True
                                 | Some s \<Rightarrow> if s \<noteq> [] then source c = s else True)) cs))))"
proof -
  have "row_created_at \<circ> row_of = (\<lambda>c. isoformat (created_at c))"
    by (auto simp: row_of_def)
  then show ?thesis
    using assms(2,3)
      query_holds [OF assms(1), of limit 0 row_created_at
        "\<lambda>r. isoformat start \<le> row_created_at r \<and> row_created_at r \<le> isoformat end'
             \<and> (case src of None \<Rightarrow> True
                 | Some s \<Rightarrow> if s \<noteq> [] then row_source r = s else True)"]
    by (simp add: list_by_date_range_def bind_int_def comp_def row_of_def
        cong: option.case_cong if_cong)
qed

lemma sample_times:
  "valid_datetime time0 \<and> naive time0" "valid_datetime time1 \<and> naive time1"
  "valid_datetime (created_at conv1) \<and> naive (created_at conv1)"
  "valid_datetime (updated_at conv1) \<and> naive (updated_at conv1)"
  by (simp_all add: valid_datetime_def naive_def time0_def time1_def conv1_def)

lemma sample_in_range:
  "isoformat time0 \<le> isoformat (created_at conv1)"
  "isoformat (created_at conv1) \<le> isoformat time1"
proof -
  have o: "utcoffset time0 = utcoffset (created_at conv1)"
    "utcoffset (created_at conv1) = utcoffset time1"
    by (simp_all add: time0_def time1_def conv1_def)
  show "isoformat time0 \<le> isoformat (created_at conv1)"
    using sample_times isoformat_le_offset [OF _ _ o(1)]
    by (simp add: naive_key_def time0_def conv1_def)
  show "isoformat (created_at conv1) \<le> isoformat time1"
    using sample_times isoformat_le_offset [OF _ _ o(2)]
    by (simp add: naive_key_def time1_def conv1_def)
qed

lemma holds_store1: "holds id_codec (save id_codec empty_store conv1) [conv1]"
  using holds_save [OF holds_empty id_codec_ok [of conv1]] by simp

text \<open>
  C6 as stated fails for the empty source: a conversation whose source is not empty is
  returned.
\<close>

theorem list_by_date_range_empty_source:
  "list_by_date_range id_codec (save id_codec empty_store conv1) time0 time1 (Some []) 10
     = Inr [conv1]
   \<and> source conv1 \<noteq> []"
  using sample_in_range
  by (simp add: list_by_date_range_holds [OF holds_store1] limit_offset_def)
     (simp add: conv1_def)

text \<open>
  C7. The table orders the ISO text of \<open>updated_at\<close>, which is not the order in time
  when the offsets differ: of three stored conversations, the pages of size 1 hold
  \<open>convA\<close> and \<open>convB\<close>, while \<open>convC\<close>, on neither page, was updated strictly later
  than \<open>convA\<close>.
\<close>

theorem list_all_aware_order:
  "holds id_codec aware_store [convA, convB, convC]
   \<and> 2 * 1 < length [convA, convB, convC]
   \<and> list_all_conversations id_codec aware_store 1 0 = Inr [convA]
   \<and> list_all_conversations id_codec aware_store 1 1 = Inr [convB]
   \<and> dt_le (updated_at convA) (updated_at convC) = Inr True
   \<and> dt_le (updated_at convC) (updated_at convA) = Inr False"
proof -
  have p: "list_all_conversations id_codec aware_store l off
             = Inr (limit_offset l off [convA, convB, convC])"
    if "- (2 ^ 63) \<le> l" "l < 2 ^ 63" "- (2 ^ 63) \<le> off" "off < 2 ^ 63" for l off
    using list_all_conversations_holds [OF holds_aware that] unfolding ranked_aware .
  show ?thesis
    using holds_aware aware_order by (simp add: p limit_offset_def)
qed

lemma store3_text_ordered:
  "text_ordered (time0 # time1 # map created_at [conv1, conv2, conv3])"
  using sample_times
  by (intro same_offset_text_ordered [where off = None])
     (simp add: conv2_def conv3_def naive_def)

theorem list_by_date_range_exact_witness:
  "holds id_codec store3 [conv1, conv2, conv3]
   \<and> text_ordered (time0 # time1 # map created_at [conv1, conv2, conv3])
   \<and> (\<exists>res. list_by_date_range id_codec store3 time0 time1 (Some ''other'') 10 = Inr res
          \<and> length res \<le> 10 \<and> (\<forall>c \<in> set res. source c = ''other''))"
proof -
  have "(0::int) \<le> 10" "(10::int) < 2 ^ 63" by simp_all
  from list_by_date_range_exact [OF holds_store3 this store3_text_ordered,
      of "Some ''other''"] holds_store3 store3_text_ordered
  show ?thesis by auto
qed

end
